theory Spec2Isabelle
  imports Complex_Main "HOL-Library.Word" "HOL-Library.Char_ord" "HOL-Library.List_Lexorder"
begin

section \<open>Data model (internal/domain)\<close>

text \<open>
  Go strings are byte sequences and are compared bytewise; they are modelled as
  \<^typ>\<open>string\<close> with the lexicographic order of \<open>List_Lexorder\<close> over the byte
  order of \<open>Char_ord\<close>. Field names carry the name of their struct as a prefix, since
  several structs of the source share the field names \<open>Name\<close> and \<open>Version\<close>.
\<close>

record IndexEntry =
  entry_Name :: string
  entry_Path :: string
  entry_Description :: string
  entry_Version :: string
  entry_Labels :: "(string \<times> string) list"

record Index =
  index_Version :: string
  index_Commit :: string
  index_UpdatedAt :: string
  index_Servers :: "IndexEntry list"

record Repository =
  repo_URL :: string
  repo_Source :: string
  repo_ID :: string

record KeyValueInput =
  kv_Name :: string
  kv_Description :: string
  kv_IsRequired :: bool
  kv_IsSecret :: bool
  kv_Default :: string
  kv_Choices :: "string list"

record Transport =
  transport_Type :: string
  transport_URL :: string
  transport_Headers :: "KeyValueInput list"

text \<open>
  \<open>Package\<close> keeps the fields that identify the package and its transport; its three
  argument sequences (environment variables, package and runtime arguments) are carried
  as lists of \<open>KeyValueInput\<close>-shaped rows. No function of the catalog reads inside a
  binding: manifests are produced by the YAML decoder and handed on unchanged.
\<close>

record Package =
  package_RegistryType :: string
  package_RegistryBaseURL :: string
  package_Identifier :: string
  package_Version :: string
  package_FileSHA256 :: string
  package_RuntimeHint :: string
  package_Transport :: Transport
  package_EnvironmentVariables :: "KeyValueInput list"
  package_PackageArguments :: "KeyValueInput list"
  package_RuntimeArguments :: "KeyValueInput list"

record Remote =
  remote_Type :: string
  remote_URL :: string
  remote_Headers :: "KeyValueInput list"

record ServerJSON =
  server_Schema :: string
  server_Name :: string
  server_Description :: string
  server_Version :: string
  server_Title :: string
  server_WebsiteURL :: string
  server_Repository :: "Repository option"
  server_Packages :: "Package list"
  server_Remotes :: "Remote list"

text \<open>\<open>OfficialMeta\<close>; the time stamp is a number of ticks of the wall clock.\<close>

record OfficialMeta =
  official_Status :: string
  official_PublishedAt :: nat
  official_IsLatest :: bool

text \<open>\<open>ServerMeta\<close>; its publisher-provided part is never set by the service.\<close>

record ServerMeta =
  servermeta_Official :: "OfficialMeta option"

record ServerResponse =
  resp_Server :: ServerJSON
  resp_Meta :: "ServerMeta option"

record ListMetadata =
  meta_NextCursor :: string
  meta_Count :: nat

record ServerListResponse =
  list_Servers :: "ServerResponse list"
  list_Metadata :: ListMetadata


record ErrorResponse =
  error_Status :: nat
  error_Title :: string
  error_Detail :: string

section \<open>Working-copy store (internal/gitstore)\<close>

text \<open>
  Of the store the catalog uses \<open>ReadFile\<close> only. The working copy is a partial map
  from repository-relative paths to file contents; \<open>store_repo\<close> tells whether the
  clone has been made (\<open>s.repo != nil\<close>).
\<close>

record Store =
  store_repo :: bool
  store_files :: "string \<Rightarrow> string option"
  store_currentCommit :: string

datatype store_error = RepoNotInitialized | FileReadError string

definition ReadFile :: "Store \<Rightarrow> string \<Rightarrow> store_error + string" where
  "ReadFile s path =
     (if \<not> store_repo s then Inl RepoNotInitialized
      else case store_files s path of
             None \<Rightarrow> Inl (FileReadError path)
           | Some content \<Rightarrow> Inr content)"

section \<open>The bounded LRU cache (hashicorp/golang-lru)\<close>

text \<open>
  The cache is a list of key/value pairs, most recently used first. \<open>Get\<close> moves the
  entry found to the front; \<open>Add\<close> puts the entry at the front and, when the capacity
  is exceeded, drops the entry at the back; \<open>Purge\<close> empties the cache.
\<close>

type_synonym 'v lru = "(string \<times> 'v) list"

definition lru_Get :: "string \<Rightarrow> 'v lru \<Rightarrow> 'v option \<times> 'v lru" where
  "lru_Get k c =
     (case map_of c k of
        None \<Rightarrow> (None, c)
      | Some v \<Rightarrow> (Some v, (k, v) # filter (\<lambda>p. fst p \<noteq> k) c))"

definition lru_Add :: "nat \<Rightarrow> string \<Rightarrow> 'v \<Rightarrow> 'v lru \<Rightarrow> 'v lru" where
  "lru_Add cap k v c = take cap ((k, v) # filter (\<lambda>p. fst p \<noteq> k) c)"

definition lru_Purge :: "'v lru \<Rightarrow> 'v lru" where
  "lru_Purge c = []"

section \<open>URL path escaping (net/url)\<close>

text \<open>
  \<open>url.PathUnescape\<close> first checks that every percent sign is followed by two
  hexadecimal digits and fails with an \<open>EscapeError\<close> otherwise; it then replaces each
  escape by the byte it denotes. \<open>url.PathEscape\<close> escapes every byte that
  \<open>shouldEscape\<close> selects for a path segment, with upper-case hexadecimal digits.
\<close>

definition ishex :: "char \<Rightarrow> bool" where
  "ishex c \<longleftrightarrow>
     (CHR ''0'' \<le> c \<and> c \<le> CHR ''9'') \<or> (CHR ''a'' \<le> c \<and> c \<le> CHR ''f'')
     \<or> (CHR ''A'' \<le> c \<and> c \<le> CHR ''F'')"

definition unhex :: "char \<Rightarrow> nat" where
  "unhex c =
     (if CHR ''0'' \<le> c \<and> c \<le> CHR ''9'' then of_char c - of_char (CHR ''0'')
      else if CHR ''a'' \<le> c \<and> c \<le> CHR ''f'' then of_char c - of_char (CHR ''a'') + 10
      else if CHR ''A'' \<le> c \<and> c \<le> CHR ''F'' then of_char c - of_char (CHR ''A'') + 10
      else 0)"

fun unescape_check :: "string \<Rightarrow> string option" where
  "unescape_check [] = None"
| "unescape_check (c # s) =
     (if c = CHR ''%'' then
        (case s of
           a # b # t \<Rightarrow> if ishex a \<and> ishex b then unescape_check t else Some (take 3 (c # s))
         | _ \<Rightarrow> Some (take 3 (c # s)))
      else unescape_check s)"

fun unescape_build :: "string \<Rightarrow> string" where
  "unescape_build [] = []"
| "unescape_build (c # s) =
     (if c = CHR ''%'' then
        (case s of
           a # b # t \<Rightarrow> char_of (unhex a * 16 + unhex b) # unescape_build t
         | _ \<Rightarrow> [])
      else c # unescape_build s)"

datatype url_error = EscapeError string

definition PathUnescape :: "string \<Rightarrow> url_error + string" where
  "PathUnescape s =
     (case unescape_check s of
        Some bad \<Rightarrow> Inl (EscapeError bad)
      | None \<Rightarrow> Inr (unescape_build s))"

definition isAlnum :: "char \<Rightarrow> bool" where
  "isAlnum c \<longleftrightarrow>
     (CHR ''a'' \<le> c \<and> c \<le> CHR ''z'') \<or> (CHR ''A'' \<le> c \<and> c \<le> CHR ''Z'')
     \<or> (CHR ''0'' \<le> c \<and> c \<le> CHR ''9'')"

text \<open>\<open>shouldEscape(c, encodePathSegment)\<close>.\<close>

definition shouldEscape :: "char \<Rightarrow> bool" where
  "shouldEscape c \<longleftrightarrow>
     (if isAlnum c then False
      else if c \<in> set ''-_.~'' then False
      else if c \<in> set ''$&+,/:;=?@'' then c \<in> set ''/;,?''
      else True)"

definition upperhex :: string where
  "upperhex = ''0123456789ABCDEF''"

definition escape_byte :: "char \<Rightarrow> string" where
  "escape_byte c =
     [CHR ''%'', upperhex ! ((of_char c :: nat) div 16), upperhex ! ((of_char c :: nat) mod 16)]"

definition PathEscape :: "string \<Rightarrow> string" where
  "PathEscape s = concat (map (\<lambda>c. if shouldEscape c then escape_byte c else [c]) s)"

text \<open>
  \<open>ServerNameRegex\<close>, \<^verbatim>\<open>^[a-zA-Z0-9.-]+/[a-zA-Z0-9._-]+$\<close>: a nonempty namespace
  without a slash, one slash, a nonempty local id.
\<close>

definition nsChar :: "char \<Rightarrow> bool" where
  "nsChar c \<longleftrightarrow> isAlnum c \<or> c \<in> set ''.-''"

definition idChar :: "char \<Rightarrow> bool" where
  "idChar c \<longleftrightarrow> isAlnum c \<or> c \<in> set ''._-''"

definition ServerNameRegex :: "string \<Rightarrow> bool" where
  "ServerNameRegex s \<longleftrightarrow>
     (let ns = takeWhile (\<lambda>c. c \<noteq> CHR ''/'') s;
          rest = dropWhile (\<lambda>c. c \<noteq> CHR ''/'') s
      in ns \<noteq> [] \<and> list_all nsChar ns \<and> rest \<noteq> [] \<and> tl rest \<noteq> [] \<and> list_all idChar (tl rest))"

section \<open>Catalog (internal/registry)\<close>

text \<open>
  The hit and miss counters are \<open>atomic.Int64\<close>: 64-bit words, read as signed numbers.
  The two YAML decoders are parameters of the model: \<open>Yi\<close> decodes \<open>index.yaml\<close> and
  \<open>Ys\<close> decodes a manifest file; \<open>None\<close> is a decoding error.
\<close>

record Registry =
  reg_store :: Store
  reg_cache :: "ServerJSON lru"
  reg_index :: "Index option"
  reg_cacheSize :: nat
  reg_cacheHits :: "64 word"
  reg_cacheMisses :: "64 word"
  reg_lastSyncAt :: nat

datatype reg_error =
    IndexFileNotFound store_error
  | IndexParseFailed
  | IndexNotLoaded
  | ServerNotFound string
  | ServerReadFailed store_error
  | ServerParseFailed

definition LoadIndex :: "(string \<Rightarrow> Index option) \<Rightarrow> nat \<Rightarrow> Registry \<Rightarrow> reg_error option \<times> Registry" where
  "LoadIndex Yi now r =
     (case ReadFile (reg_store r) ''index.yaml'' of
        Inl e \<Rightarrow> (Some (IndexFileNotFound e), r)
      | Inr content \<Rightarrow>
          (case Yi content of
             None \<Rightarrow> (Some IndexParseFailed, r)
           | Some idx \<Rightarrow> (None, r\<lparr>reg_index := Some idx, reg_lastSyncAt := now\<rparr>)))"

definition Refresh :: "(string \<Rightarrow> Index option) \<Rightarrow> nat \<Rightarrow> Registry \<Rightarrow> reg_error option \<times> Registry" where
  "Refresh Yi now r =
     LoadIndex Yi now
       (r\<lparr>reg_cache := lru_Purge (reg_cache r), reg_cacheHits := 0, reg_cacheMisses := 0\<rparr>)"

text \<open>
  \<open>GetServer\<close>, lines 120 to 161: the lookup of an already normalised name in the cache
  and then in the index.
\<close>

definition lookupServer ::
  "(string \<Rightarrow> ServerJSON option) \<Rightarrow> Registry \<Rightarrow> string \<Rightarrow> (reg_error + ServerJSON) \<times> Registry" where
  "lookupServer Ys r decodedName =
     (case lru_Get decodedName (reg_cache r) of
        (Some server, c) \<Rightarrow> (Inr server, r\<lparr>reg_cache := c, reg_cacheHits := reg_cacheHits r + 1\<rparr>)
      | (None, c) \<Rightarrow>
          (let r1 = r\<lparr>reg_cacheMisses := reg_cacheMisses r + 1\<rparr> in
           case reg_index r1 of
             None \<Rightarrow> (Inl IndexNotLoaded, r1)
           | Some idx \<Rightarrow>
               (case find (\<lambda>e. entry_Name e = decodedName) (index_Servers idx) of
                  None \<Rightarrow> (Inl (ServerNotFound decodedName), r1)
                | Some entry \<Rightarrow>
                    (case ReadFile (reg_store r1) (entry_Path entry) of
                       Inl e \<Rightarrow> (Inl (ServerReadFailed e), r1)
                     | Inr content \<Rightarrow>
                         (case Ys content of
                            None \<Rightarrow> (Inl ServerParseFailed, r1)
                          | Some server \<Rightarrow>
                              (Inr server,
                               r1\<lparr>reg_cache :=
                                     lru_Add (reg_cacheSize r1) decodedName server (reg_cache r1)\<rparr>))))))"

text \<open>\<open>GetServer\<close>, lines 113 to 118: the name is unescaped, and kept as it is when that fails.\<close>

definition normalizeName :: "string \<Rightarrow> string" where
  "normalizeName name = (case PathUnescape name of Inl err \<Rightarrow> name | Inr decodedName \<Rightarrow> decodedName)"

definition GetServer ::
  "(string \<Rightarrow> ServerJSON option) \<Rightarrow> Registry \<Rightarrow> string \<Rightarrow> (reg_error + ServerJSON) \<times> Registry" where
  "GetServer Ys r name = lookupServer Ys r (normalizeName name)"

definition IndexStatus :: "Registry \<Rightarrow> string" where
  "IndexStatus r = (case reg_index r of None \<Rightarrow> ''not_loaded'' | Some idx \<Rightarrow> ''valid'')"

definition ServerCount :: "Registry \<Rightarrow> nat" where
  "ServerCount r = (case reg_index r of None \<Rightarrow> 0 | Some idx \<Rightarrow> length (index_Servers idx))"


text \<open>\<open>ListServers\<close>, lines 173 to 178: the page size the catalog uses.\<close>

definition effective_limit :: "int \<Rightarrow> int" where
  "effective_limit limit =
     (let limit1 = (if limit \<le> 0 then 30 else limit)
      in if limit1 > 100 then 100 else limit1)"

text \<open>
  \<open>ListServers\<close>, lines 190 to 195: the scan for the cursor. It returns the start index,
  which stays \<open>0\<close> when no entry has the cursor as its name.
\<close>

fun cursor_scan :: "IndexEntry list \<Rightarrow> string \<Rightarrow> nat \<Rightarrow> nat" where
  "cursor_scan [] cursor i = 0"
| "cursor_scan (s # servers) cursor i =
     (if entry_Name s = cursor then i + 1 else cursor_scan servers cursor (i + 1))"

text \<open>\<open>ListServers\<close>, lines 188 to 196: the start position, \<open>0\<close> for the empty cursor.\<close>

definition start_index :: "IndexEntry list \<Rightarrow> string \<Rightarrow> nat" where
  "start_index servers cursor = (if cursor \<noteq> [] then cursor_scan servers cursor 0 else 0)"

definition minimal_server :: "IndexEntry \<Rightarrow> ServerJSON" where
  "minimal_server entry =
     \<lparr>server_Schema = [], server_Name = entry_Name entry,
      server_Description = entry_Description entry, server_Version = entry_Version entry,
      server_Title = [], server_WebsiteURL = [], server_Repository = None,
      server_Packages = [], server_Remotes = []\<rparr>"

text \<open>\<open>ListServers\<close>, lines 205 to 222: each entry of the page is looked up with \<open>GetServer\<close>.\<close>

fun hydrate ::
  "(string \<Rightarrow> ServerJSON option) \<Rightarrow> Registry \<Rightarrow> IndexEntry list \<Rightarrow> ServerResponse list \<times> Registry" where
  "hydrate Ys r [] = ([], r)"
| "hydrate Ys r (entry # entries) =
     (case GetServer Ys r (entry_Name entry) of
        (res, r1) \<Rightarrow>
          (let server = (case res of Inl err \<Rightarrow> minimal_server entry | Inr s \<Rightarrow> s)
           in case hydrate Ys r1 entries of
                (results, r2) \<Rightarrow> (\<lparr>resp_Server = server, resp_Meta = None\<rparr> # results, r2)))"

text \<open>
  \<open>sort.Slice\<close> is not a stable sort: entries that share a name may come out in any
  order. The model sorts with the insertion sort \<open>sort_key\<close>; where names are pairwise
  distinct the sorted sequence does not depend on the algorithm.
\<close>

definition ListServers ::
  "(string \<Rightarrow> ServerJSON option) \<Rightarrow> Registry \<Rightarrow> string \<Rightarrow> int
     \<Rightarrow> (reg_error + ServerListResponse) \<times> Registry" where
  "ListServers Ys r cursor limit =
     (case reg_index r of
        None \<Rightarrow> (Inl IndexNotLoaded, r)
      | Some idx \<Rightarrow>
          (let pageSize = nat (effective_limit limit);
               servers = sort_key entry_Name (index_Servers idx);
               startIdx = start_index servers cursor;
               endIdx = (if startIdx + pageSize > length servers then length servers
                         else startIdx + pageSize)
           in case hydrate Ys r (take (endIdx - startIdx) (drop startIdx servers)) of
                (results, r') \<Rightarrow>
                  (let nextCursor =
                         (if endIdx < length servers then entry_Name (servers ! (endIdx - 1)) else [])
                   in (Inr \<lparr>list_Servers = results,
                             list_Metadata = \<lparr>meta_NextCursor = nextCursor,
                                              meta_Count = length results\<rparr>\<rparr>, r'))))"

section \<open>Read API handlers (internal/api)\<close>

text \<open>
  \<open>strconv.Atoi\<close>: an optional sign and a nonempty run of decimal digits; a value
  outside the 64-bit range of \<open>int\<close> is an error.
\<close>

datatype num_error = ErrSyntax | ErrRange

definition isDigit :: "char \<Rightarrow> bool" where
  "isDigit c \<longleftrightarrow> CHR ''0'' \<le> c \<and> c \<le> CHR ''9''"

definition digits_value :: "string \<Rightarrow> int" where
  "digits_value ds = foldl (\<lambda>n ch. n * 10 + (int (of_char ch) - 48)) 0 ds"

definition Atoi :: "string \<Rightarrow> num_error + int" where
  "Atoi s =
     (let neg = (s \<noteq> [] \<and> hd s = CHR ''-'');
          ds = (if s \<noteq> [] \<and> (hd s = CHR ''-'' \<or> hd s = CHR ''+'') then tl s else s)
      in if ds = [] \<or> \<not> list_all isDigit ds then Inl ErrSyntax
         else (let v = (if neg then - digits_value ds else digits_value ds)
               in if v < - (2 ^ 63) \<or> 2 ^ 63 - 1 < v then Inl ErrRange else Inr v))"

datatype api_body =
    ListBody ServerListResponse
  | ServerBody ServerResponse
  | ErrorBody ErrorResponse

definition writeError :: "nat \<Rightarrow> string \<Rightarrow> string \<Rightarrow> nat \<times> api_body" where
  "writeError status title detail =
     (status, ErrorBody \<lparr>error_Status = status, error_Title = title, error_Detail = detail\<rparr>)"

text \<open>\<open>Handlers.ListServers\<close>, lines 100 to 107: the limit read from the query string.\<close>

definition query_limit :: "string \<Rightarrow> int" where
  "query_limit limitStr =
     (if limitStr \<noteq> [] then
        (case Atoi limitStr of
           Inr l \<Rightarrow> if l > 0 then l else 30
         | Inl err \<Rightarrow> 30)
      else 30)"

definition Handlers_ListServers ::
  "(string \<Rightarrow> ServerJSON option) \<Rightarrow> Registry \<Rightarrow> string \<Rightarrow> string \<Rightarrow> (nat \<times> api_body) \<times> Registry" where
  "Handlers_ListServers Ys r cursor limitStr =
     (case ListServers Ys r cursor (query_limit limitStr) of
        (Inl err, r') \<Rightarrow>
          (writeError 503 ''Service Unavailable''
             ''Index not available. Ensure index.yaml exists and is valid.'', r')
      | (Inr resp, r') \<Rightarrow> ((200, ListBody resp), r'))"

definition Handlers_GetServer ::
  "(string \<Rightarrow> ServerJSON option) \<Rightarrow> Registry \<Rightarrow> string \<Rightarrow> (nat \<times> api_body) \<times> Registry" where
  "Handlers_GetServer Ys r serverName =
     (if serverName = [] then (writeError 400 ''Bad Request'' ''Server name is required'', r)
      else (let decodedName = (case PathUnescape serverName of
                                 Inl err \<Rightarrow> serverName | Inr d \<Rightarrow> d)
            in case GetServer Ys r decodedName of
                 (Inl err, r') \<Rightarrow>
                   (writeError 404 ''Not Found'' (''Server not found: '' @ decodedName), r')
               | (Inr server, r') \<Rightarrow>
                   ((200, ServerBody
                       \<lparr>resp_Server = server,
                        resp_Meta =
                          Some \<lparr>servermeta_Official =
                                  Some \<lparr>official_Status = ''active'',
                                        official_PublishedAt = reg_lastSyncAt r',
                                        official_IsLatest = True\<rparr>\<rparr>\<rparr>), r')))"

section \<open>Sync trigger and webhook ingress (internal/sync)\<close>

text \<open>
  Of the sync manager the webhook uses \<open>Trigger\<close> only: a send that does not block on
  a channel with one slot. \<open>mgr_triggerChan\<close> is the number of triggers in the channel.
\<close>

record Manager =
  mgr_triggerChan :: nat
  mgr_lastSync :: nat
  mgr_syncing :: bool

definition Trigger :: "Manager \<Rightarrow> Manager" where
  "Trigger m = (if mgr_triggerChan m < 1 then m\<lparr>mgr_triggerChan := mgr_triggerChan m + 1\<rparr> else m)"

record Commit =
  commit_ID :: string
  commit_Message :: string
  commit_Added :: "string list"
  commit_Removed :: "string list"
  commit_Modified :: "string list"

record PushEvent =
  push_Ref :: string
  push_Before :: string
  push_After :: string
  push_RepositoryFullName :: string
  push_RepositoryCloneURL :: string
  push_PusherName :: string
  push_PusherEmail :: string
  push_Commits :: "Commit list"

record WebhookHandler =
  wh_secret :: string
  wh_branch :: string

text \<open>
  A request: the body is the bytes the client sends and a flag telling whether the
  stream then ends with a read error instead of the end of the input. The three headers
  are the values \<open>Header.Get\<close> returns, empty when the header is missing.
\<close>

record Request =
  req_Method :: string
  req_Body :: string
  req_BodyFails :: bool
  req_Signature :: string
  req_Event :: string
  req_Delivery :: string

definition maxBody :: nat where
  "maxBody = 10 * 1024 * 1024"

text \<open>
  \<open>io.ReadAll(io.LimitReader(r.Body, 10*1024*1024))\<close>: the limited reader reports the end
  of the input once it has handed out \<open>maxBody\<close> bytes, and reads no further.
\<close>

definition ReadAll_LimitReader :: "Request \<Rightarrow> string option" where
  "ReadAll_LimitReader r =
     (if maxBody \<le> length (req_Body r) then Some (take maxBody (req_Body r))
      else if req_BodyFails r then None
      else Some (req_Body r))"

text \<open>\<open>strings.SplitN(signature, "=", 2)\<close>.\<close>

definition SplitN2 :: "string \<Rightarrow> string list" where
  "SplitN2 s =
     (if CHR ''='' \<in> set s
      then [takeWhile (\<lambda>c. c \<noteq> CHR ''='') s, tl (dropWhile (\<lambda>c. c \<noteq> CHR ''='') s)]
      else [s])"

text \<open>
  The parameter \<open>H\<close> is the hexadecimal HMAC-SHA256 of a body under a secret
  (\<open>hex.EncodeToString(mac.Sum(nil))\<close>); \<open>hmac.Equal\<close> is equality of byte strings.
\<close>

definition validateSignature ::
  "(string \<Rightarrow> string \<Rightarrow> string) \<Rightarrow> WebhookHandler \<Rightarrow> string \<Rightarrow> string \<Rightarrow> bool" where
  "validateSignature H h signature body =
     (if signature = [] then False
      else (let parts = SplitN2 signature
            in if length parts \<noteq> 2 \<or> parts ! 0 \<noteq> ''sha256'' then False
               else parts ! 1 = H (wh_secret h) body))"

text \<open>The three bodies the handler writes with status 200.\<close>

definition accepted_body :: string where
  \<open>accepted_body = ''{"status": "accepted"}''\<close>

definition ignored_event_body :: string where
  \<open>ignored_event_body = ''{"status": "ignored", "reason": "not a push event"}''\<close>

definition ignored_branch_body :: string where
  \<open>ignored_branch_body = ''{"status": "ignored", "reason": "different branch"}''\<close>

text \<open>
  What a run of the handler does besides answering: the calls it makes, in order. A
  run ends with a reply (status code and body; \<open>http.Error\<close> ends the body it writes
  with a line feed, which the model leaves out) or with a run-time panic.
\<close>

datatype effect = ReadBody | CheckSignature | ParseBody | EmitTrigger

datatype reply = Reply nat string | Panic string

record Outcome =
  out_reply :: reply
  out_effects :: "effect list"
  out_manager :: Manager

text \<open>
  \<open>ServeHTTP\<close>. The parameter \<open>J\<close> is \<open>json.Unmarshal\<close> into a \<open>PushEvent\<close>. The
  slices \<open>event.Before[:8]\<close> and \<open>event.After[:8]\<close>, taken for the log line, panic on a
  string of fewer than eight bytes.
\<close>

definition ServeHTTP ::
  "(string \<Rightarrow> string \<Rightarrow> string) \<Rightarrow> (string \<Rightarrow> PushEvent option) \<Rightarrow> WebhookHandler \<Rightarrow> Manager
     \<Rightarrow> Request \<Rightarrow> Outcome" where
  \<open>ServeHTTP H J h m r =
     (if req_Method r \<noteq> ''POST''
      then \<lparr>out_reply = Reply 405 ''method not allowed'', out_effects = [], out_manager = m\<rparr>
      else case ReadAll_LimitReader r of
        None \<Rightarrow> \<lparr>out_reply = Reply 400 ''failed to read body'', out_effects = [ReadBody],
                 out_manager = m\<rparr>
      | Some body \<Rightarrow>
          if \<not> validateSignature H h (req_Signature r) body
          then \<lparr>out_reply = Reply 401 ''invalid signature'',
                out_effects = [ReadBody, CheckSignature], out_manager = m\<rparr>
          else if req_Event r \<noteq> ''push''
          then \<lparr>out_reply = Reply 200 ignored_event_body,
                out_effects = [ReadBody, CheckSignature], out_manager = m\<rparr>
          else case J body of
            None \<Rightarrow> \<lparr>out_reply = Reply 400 ''invalid payload'',
                     out_effects = [ReadBody, CheckSignature, ParseBody], out_manager = m\<rparr>
          | Some event \<Rightarrow>
              if push_Ref event \<noteq> ''refs/heads/'' @ wh_branch h
              then \<lparr>out_reply = Reply 200 ignored_branch_body,
                    out_effects = [ReadBody, CheckSignature, ParseBody], out_manager = m\<rparr>
              else if length (push_Before event) < 8 \<or> length (push_After event) < 8
              then \<lparr>out_reply = Panic ''slice bounds out of range'',
                    out_effects = [ReadBody, CheckSignature, ParseBody], out_manager = m\<rparr>
              else \<lparr>out_reply = Reply 200 accepted_body,
                    out_effects = [ReadBody, CheckSignature, ParseBody, EmitTrigger],
                    out_manager = Trigger m\<rparr>)\<close>

section \<open>Notions of the specification\<close>

text \<open>
  The page of at most \<open>n\<close> entries that begins at the first entry whose name is
  strictly greater than the cursor, in a sequence sorted by name.
\<close>

definition page_after :: "IndexEntry list \<Rightarrow> string \<Rightarrow> nat \<Rightarrow> IndexEntry list" where
  "page_after servers cursor n = take n (dropWhile (\<lambda>e. entry_Name e \<le> cursor) servers)"

definition page_names :: "ServerResponse list \<Rightarrow> string list" where
  "page_names page = map (\<lambda>p. server_Name (resp_Server p)) page"

text \<open>
  A full pagination pass of a client: it lists with the cursor it holds, starting from
  the empty cursor, and goes on with the \<open>nextCursor\<close> of each page until a page
  carries none. The pass is bounded by \<open>fuel\<close> calls; \<open>None\<close> means that the fuel
  ran out or that the catalog had no index.
\<close>

fun pagination_pass ::
  "nat \<Rightarrow> (string \<Rightarrow> ServerJSON option) \<Rightarrow> Registry \<Rightarrow> string \<Rightarrow> int
     \<Rightarrow> ServerResponse list list option" where
  "pagination_pass 0 Ys r cursor limit = None"
| "pagination_pass (Suc fuel) Ys r cursor limit =
     (case ListServers Ys r cursor limit of
        (Inl err, r') \<Rightarrow> None
      | (Inr resp, r') \<Rightarrow>
          (if meta_NextCursor (list_Metadata resp) = [] then Some [list_Servers resp]
           else map_option ((#) (list_Servers resp))
                  (pagination_pass fuel Ys r' (meta_NextCursor (list_Metadata resp)) limit)))"

text \<open>The page a list call serves, empty when the call fails.\<close>

definition list_page :: "reg_error + ServerListResponse \<Rightarrow> ServerResponse list" where
  "list_page res = (case res of Inl err \<Rightarrow> [] | Inr resp \<Rightarrow> list_Servers resp)"

definition list_next :: "reg_error + ServerListResponse \<Rightarrow> string" where
  "list_next res = (case res of Inl err \<Rightarrow> [] | Inr resp \<Rightarrow> meta_NextCursor (list_Metadata resp))"

definition body_page :: "nat \<times> api_body \<Rightarrow> ServerResponse list" where
  "body_page reply = (case snd reply of ListBody resp \<Rightarrow> list_Servers resp | _ \<Rightarrow> [])"

text \<open>
  A sequence of read calls on the catalog, and the error, if any, that each call of
  the sequence returns; the state is threaded through the calls.
\<close>

datatype read_call = CallGet string | CallList string int

definition read_call_error ::
  "(string \<Rightarrow> ServerJSON option) \<Rightarrow> Registry \<Rightarrow> read_call \<Rightarrow> reg_error option \<times> Registry" where
  "read_call_error Ys r c =
     (case c of
        CallGet name \<Rightarrow>
          (case GetServer Ys r name of
             (Inl err, r') \<Rightarrow> (Some err, r')
           | (Inr server, r') \<Rightarrow> (None, r'))
      | CallList cursor limit \<Rightarrow>
          (case ListServers Ys r cursor limit of
             (Inl err, r') \<Rightarrow> (Some err, r')
           | (Inr resp, r') \<Rightarrow> (None, r')))"

fun read_errors ::
  "(string \<Rightarrow> ServerJSON option) \<Rightarrow> Registry \<Rightarrow> read_call list \<Rightarrow> reg_error option list" where
  "read_errors Ys r [] = []"
| "read_errors Ys r (c # cs) =
     (case read_call_error Ys r c of (e, r') \<Rightarrow> e # read_errors Ys r' cs)"

text \<open>
  A manifest file agrees with its index entry: the entry name is left unchanged by the
  normalisation \<open>GetServer\<close> applies, and the file, if it can be read and decodes,
  carries the name of the entry. The manifests agree with the index when every cached
  manifest carries the name it is cached under and every file agrees with its entry.
\<close>

definition files_agree :: "(string \<Rightarrow> ServerJSON option) \<Rightarrow> Store \<Rightarrow> IndexEntry \<Rightarrow> bool" where
  "files_agree Ys st e \<longleftrightarrow>
     normalizeName (entry_Name e) = entry_Name e \<and>
     (case ReadFile st (entry_Path e) of
        Inl err \<Rightarrow> True
      | Inr content \<Rightarrow>
          (case Ys content of
             None \<Rightarrow> True
           | Some s \<Rightarrow> server_Name s = entry_Name e))"

definition manifests_agree :: "(string \<Rightarrow> ServerJSON option) \<Rightarrow> Registry \<Rightarrow> bool" where
  "manifests_agree Ys r \<longleftrightarrow>
     list_all (\<lambda>p. server_Name (snd p) = fst p) (reg_cache r) \<and>
     (case reg_index r of
        None \<Rightarrow> True
      | Some idx \<Rightarrow> list_all (files_agree Ys (reg_store r)) (index_Servers idx))"

section \<open>Example inputs\<close>

definition manifest :: "string \<Rightarrow> ServerJSON" where
  "manifest n =
     \<lparr>server_Schema = [], server_Name = n, server_Description = [], server_Version = [],
      server_Title = [], server_WebsiteURL = [], server_Repository = None,
      server_Packages = [], server_Remotes = []\<rparr>"

definition row :: "string \<Rightarrow> string \<Rightarrow> IndexEntry" where
  "row n p =
     \<lparr>entry_Name = n, entry_Path = p, entry_Description = [], entry_Version = [],
      entry_Labels = []\<rparr>"

text \<open>
  Stand-ins for the YAML decoders on the example files: a manifest file holds the name
  of its manifest, and the index file \<open>rows\<close> holds the three rows of \<open>demo_index\<close>;
  an empty manifest file and any other index file do not decode.
\<close>

definition demo_index :: Index where
  "demo_index =
     \<lparr>index_Version = ''1'', index_Commit = ''c0ffee'', index_UpdatedAt = [],
      index_Servers = [row ''io.x/b'' ''b.yaml'', row ''io.x/a'' ''a.yaml'', row ''io.x/c'' ''c.yaml'']\<rparr>"

definition demo_Ys :: "string \<Rightarrow> ServerJSON option" where
  "demo_Ys content = (if content = [] then None else Some (manifest content))"

definition demo_Yi :: "string \<Rightarrow> Index option" where
  "demo_Yi content = (if content = ''rows'' then Some demo_index else None)"

definition demo_files :: "string \<Rightarrow> string option" where
  "demo_files path =
     (if path = ''index.yaml'' then Some ''rows''
      else if path = ''a.yaml'' then Some ''io.x/a''
      else if path = ''b.yaml'' then Some ''io.x/b''
      else if path = ''c.yaml'' then Some ''io.x/c''
      else None)"

definition demo_store :: Store where
  "demo_store = \<lparr>store_repo = True, store_files = demo_files, store_currentCommit = ''c0ffee''\<rparr>"

definition demo_registry :: Registry where
  "demo_registry =
     \<lparr>reg_store = demo_store, reg_cache = [], reg_index = Some demo_index, reg_cacheSize = 1000,
      reg_cacheHits = 3, reg_cacheMisses = 1, reg_lastSyncAt = 7\<rparr>"




text \<open>
  The working copy after a push that left a malformed \<open>index.yaml\<close>; a catalog that
  loaded \<open>demo_index\<close> before that push, and a catalog that never loaded an index.
\<close>

definition broken_store :: Store where
  "broken_store = demo_store\<lparr>store_files := demo_files(''index.yaml'' \<mapsto> ''garbage'')\<rparr>"

definition loaded_registry :: Registry where
  "loaded_registry = demo_registry\<lparr>reg_store := broken_store\<rparr>"

definition unloaded_registry :: Registry where
  "unloaded_registry = demo_registry\<lparr>reg_store := broken_store, reg_index := None\<rparr>"

text \<open>A catalog whose index has 101 rows.\<close>

definition wide_registry :: Registry where
  "wide_registry =
     demo_registry\<lparr>reg_index :=
       Some (demo_index\<lparr>index_Servers := replicate 101 (row ''io.x/a'' ''a.yaml'')\<rparr>)\<rparr>"

text \<open>
  A catalog whose index lists one name twice; a catalog whose manifest files \<open>a.yaml\<close>
  and \<open>b.yaml\<close> both carry the name \<open>io.x/z\<close>; and a catalog with the two rows
  \<open>%41\<close> and \<open>A\<close>, whose manifest files carry the names of their rows.
\<close>

definition twin_registry :: Registry where
  "twin_registry =
     demo_registry\<lparr>reg_index :=
       Some (demo_index\<lparr>index_Servers :=
         [row ''io.x/a'' ''a.yaml'', row ''io.x/a'' ''a.yaml'', row ''io.x/b'' ''b.yaml'']\<rparr>)\<rparr>"

definition renamed_registry :: Registry where
  "renamed_registry =
     demo_registry\<lparr>reg_store :=
       demo_store\<lparr>store_files := demo_files(''a.yaml'' \<mapsto> ''io.x/z'', ''b.yaml'' \<mapsto> ''io.x/z'')\<rparr>\<rparr>"

definition escaped_index :: Index where
  "escaped_index = demo_index\<lparr>index_Servers := [row ''A'' ''q.yaml'', row ''%41'' ''p.yaml'']\<rparr>"

definition escaped_registry :: Registry where
  "escaped_registry =
     demo_registry
       \<lparr>reg_store := demo_store\<lparr>store_files := demo_files(''p.yaml'' \<mapsto> ''%41'', ''q.yaml'' \<mapsto> ''A'')\<rparr>,
        reg_index := Some escaped_index\<rparr>"

text \<open>
  Webhook examples. The handler tracks \<open>main\<close> under the secret \<open>s3cret\<close>.
  \<open>short_body\<close> is a push payload without commit ids, \<open>full_body\<close> one with both
  ids, and \<open>padded_body n\<close> is \<open>full_body\<close> followed by \<open>n\<close> spaces. The stand-in
  \<open>demo_H\<close> gives the HMAC-SHA256 of these bodies under that secret, and the stand-in
  \<open>demo_J\<close> decodes them as \<open>json.Unmarshal\<close> does, which accepts white space
  after the value and leaves a missing field empty.
\<close>

definition demo_handler :: WebhookHandler where
  "demo_handler = \<lparr>wh_secret = ''s3cret'', wh_branch = ''main''\<rparr>"

definition idle_manager :: Manager where
  "idle_manager = \<lparr>mgr_triggerChan = 0, mgr_lastSync = 0, mgr_syncing = False\<rparr>"

definition short_body :: string where
  \<open>short_body = ''{"ref":"refs/heads/main"}''\<close>

definition full_body :: string where
  \<open>full_body = ''{"ref":"refs/heads/main","before":"0000000000000000000000000000000000000000","after":"1111111111111111111111111111111111111111"}''\<close>

definition padded_body :: "nat \<Rightarrow> string" where
  "padded_body n = full_body @ replicate n (CHR '' '')"

definition push_event :: "string \<Rightarrow> string \<Rightarrow> PushEvent" where
  "push_event before after =
     \<lparr>push_Ref = ''refs/heads/main'', push_Before = before, push_After = after,
      push_RepositoryFullName = [], push_RepositoryCloneURL = [], push_PusherName = [],
      push_PusherEmail = [], push_Commits = []\<rparr>"

definition demo_J :: "string \<Rightarrow> PushEvent option" where
  "demo_J body =
     (if body = short_body then Some (push_event [] [])
      else if take 128 body = full_body \<and> list_all (\<lambda>c. c = CHR '' '') (drop 128 body)
      then Some (push_event ''0000000000000000000000000000000000000000''
                            ''1111111111111111111111111111111111111111'')
      else None)"

definition demo_H :: "string \<Rightarrow> string \<Rightarrow> string" where
  "demo_H secret body =
     (if secret \<noteq> ''s3cret'' then ''00''
      else if body = short_body
      then ''232a5e067b6a5aa567ed5a1d21a0dffaf6ef0eeecb6bd9bcf43b3d5ef3fc4f43''
      else if body = full_body
      then ''e7e53ca8892529d19f9f65766ff01c2e1608eb4f16989282322427f94dabb288''
      else if body = padded_body 10485632
      then ''9e47a61cf87909db2f90bfda07a89164b2ff33762fb3ae17759fe7c94b0ac863''
      else if body = padded_body 10485633
      then ''ceee31e46456e06cbfc3cded6d7b5dca130549683e8958f09eea04116d9599b2''
      else ''00'')"

definition push_request :: "string \<Rightarrow> string \<Rightarrow> Request" where
  "push_request body signature =
     \<lparr>req_Method = ''POST'', req_Body = body, req_BodyFails = False,
      req_Signature = signature, req_Event = ''push'', req_Delivery = ''d-1''\<rparr>"

text \<open>A signed push without commit ids, and a signed push with both.\<close>

definition short_push :: Request where
  "short_push =
     push_request short_body
       ''sha256=232a5e067b6a5aa567ed5a1d21a0dffaf6ef0eeecb6bd9bcf43b3d5ef3fc4f43''"

definition full_push :: Request where
  "full_push =
     push_request full_body
       ''sha256=e7e53ca8892529d19f9f65766ff01c2e1608eb4f16989282322427f94dabb288''"

text \<open>
  A push of \<open>10 MiB + 1\<close> bytes whose signature is the HMAC of its first 10 MiB, and a
  push of the same size without a signature.
\<close>

definition oversize_push :: Request where
  "oversize_push =
     push_request (padded_body 10485633)
       ''sha256=9e47a61cf87909db2f90bfda07a89164b2ff33762fb3ae17759fe7c94b0ac863''"

definition unsigned_oversize_push :: Request where
  "unsigned_oversize_push = push_request (padded_body 10485633) []"

text \<open>A push without a signature whose body stream breaks off with a read error.\<close>

definition interrupted_push :: Request where
  "interrupted_push = (push_request short_body [])\<lparr>req_BodyFails := True\<rparr>"

section \<open>Percent-encoding\<close>

lemma upperhex_unhex: "k < 16 \<Longrightarrow> unhex (upperhex ! k) = k \<and> ishex (upperhex ! k)"
proof -
  assume "k < 16"
  then have "k = 0 \<or> k = 1 \<or> k = 2 \<or> k = 3 \<or> k = 4 \<or> k = 5 \<or> k = 6 \<or> k = 7 \<or> k = 8 \<or> k = 9
     \<or> k = 10 \<or> k = 11 \<or> k = 12 \<or> k = 13 \<or> k = 14 \<or> k = 15" by arith
  then show ?thesis
    by (elim disjE) (simp_all add: upperhex_def unhex_def ishex_def less_eq_char_def)
qed

lemma escape_byte_unescape:
  "unescape_check (escape_byte c @ s) = unescape_check s"
  "unescape_build (escape_byte c @ s) = c # unescape_build s"
proof -
  have d: "(of_char c :: nat) div 16 < 16"
    by (simp add: less_mult_imp_div_less)
  have m: "(of_char c :: nat) mod 16 < 16" by simp
  show "unescape_check (escape_byte c @ s) = unescape_check s"
    using upperhex_unhex[OF d] upperhex_unhex[OF m] by (simp add: escape_byte_def)
  have "char_of (unhex (upperhex ! ((of_char c :: nat) div 16)) * 16
                 + unhex (upperhex ! ((of_char c :: nat) mod 16))) = c"
    using upperhex_unhex[OF d] upperhex_unhex[OF m] by simp
  then show "unescape_build (escape_byte c @ s) = c # unescape_build s"
    by (simp add: escape_byte_def)
qed

lemma shouldEscape_percent: "\<not> shouldEscape c \<Longrightarrow> c \<noteq> CHR ''%''"
  by (auto simp: shouldEscape_def isAlnum_def less_eq_char_def)

lemma PathEscape_Cons:
  "PathEscape (c # s) = (if shouldEscape c then escape_byte c else [c]) @ PathEscape s"
  by (simp add: PathEscape_def)

lemma PathEscape_unescape:
  "unescape_check (PathEscape s) = None \<and> unescape_build (PathEscape s) = s"
proof (induction s)
  case Nil
  show ?case by (simp add: PathEscape_def)
next
  case (Cons c s)
  show ?case
  proof (cases "shouldEscape c")
    case True
    then show ?thesis using Cons by (simp add: PathEscape_Cons escape_byte_unescape)
  next
    case False
    then show ?thesis using Cons shouldEscape_percent[OF False] by (simp add: PathEscape_Cons)
  qed
qed

lemma PathUnescape_PathEscape: "PathUnescape (PathEscape s) = Inr s"
  using PathEscape_unescape[of s] by (simp add: PathUnescape_def)

lemma no_percent_unescape:
  "CHR ''%'' \<notin> set s \<Longrightarrow> unescape_check s = None \<and> unescape_build s = s"
  by (induction s) auto

lemma PathUnescape_no_percent: "CHR ''%'' \<notin> set s \<Longrightarrow> PathUnescape s = Inr s"
  using no_percent_unescape[of s] by (simp add: PathUnescape_def)

lemma nsChar_not_percent: "nsChar c \<Longrightarrow> c \<noteq> CHR ''%''"
  by (auto simp: nsChar_def isAlnum_def less_eq_char_def)

lemma idChar_not_percent: "idChar c \<Longrightarrow> c \<noteq> CHR ''%''"
  by (auto simp: idChar_def isAlnum_def less_eq_char_def)

lemma ServerNameRegex_no_percent:
  assumes "ServerNameRegex s"
  shows "CHR ''%'' \<notin> set s"
proof -
  let ?ns = "takeWhile (\<lambda>c. c \<noteq> CHR ''/'') s" and ?rest = "dropWhile (\<lambda>c. c \<noteq> CHR ''/'') s"
  from assms have ns: "list_all nsChar ?ns" and rest: "?rest \<noteq> []"
    and id: "list_all idChar (tl ?rest)"
    by (simp_all add: ServerNameRegex_def Let_def)
  have h: "hd ?rest = CHR ''/''"
    using rest hd_dropWhile[of "\<lambda>c. c \<noteq> CHR ''/''" s] by auto
  have "set s = set ?ns \<union> set ?rest"
    by (metis set_append takeWhile_dropWhile_id)
  moreover have "set ?rest = insert (hd ?rest) (set (tl ?rest))"
    using rest by (metis list.collapse list.simps(15))
  moreover have "CHR ''%'' \<notin> set ?ns"
    using ns nsChar_not_percent by (auto simp: list_all_iff)
  moreover have "CHR ''%'' \<notin> set (tl ?rest)"
    using id idChar_not_percent by (auto simp: list_all_iff)
  ultimately show ?thesis using h by auto
qed

lemma ServerNameRegex_nonempty: "ServerNameRegex s \<Longrightarrow> s \<noteq> []"
  by (auto simp: ServerNameRegex_def Let_def)

lemma PathEscape_nonempty: "s \<noteq> [] \<Longrightarrow> PathEscape s \<noteq> []"
  by (cases s) (simp_all add: PathEscape_Cons escape_byte_def)

lemma ServerNameRegex_demo: "ServerNameRegex ''io.x/a''"
  by (simp add: ServerNameRegex_def nsChar_def idChar_def isAlnum_def less_eq_char_def)

lemma PathEscape_demo: "PathEscape ''io.x/a'' = ''io.x%2Fa''"
  by (simp add: PathEscape_def shouldEscape_def isAlnum_def less_eq_char_def escape_byte_def
      upperhex_def)

section \<open>The catalog state under reads\<close>

lemma lookupServer_index: "reg_index (snd (lookupServer Ys r n)) = reg_index r"
  by (simp add: lookupServer_def Let_def split: prod.splits option.splits sum.splits)

lemma GetServer_index: "reg_index (snd (GetServer Ys r n)) = reg_index r"
  by (simp add: GetServer_def lookupServer_index)

lemma hydrate_Cons:
  "hydrate Ys r (e # es) =
     (\<lparr>resp_Server = (case fst (GetServer Ys r (entry_Name e)) of
                          Inl err \<Rightarrow> minimal_server e | Inr s \<Rightarrow> s),
       resp_Meta = None\<rparr> # fst (hydrate Ys (snd (GetServer Ys r (entry_Name e))) es),
      snd (hydrate Ys (snd (GetServer Ys r (entry_Name e))) es))"
  by (simp add: case_prod_beta Let_def)

lemma hydrate_length: "length (fst (hydrate Ys r es)) = length es"
  by (induction es arbitrary: r) (simp_all add: hydrate_Cons del: hydrate.simps(2))

lemma hydrate_index: "reg_index (snd (hydrate Ys r es)) = reg_index r"
proof (induction es arbitrary: r)
  case Nil show ?case by simp
next
  case (Cons e es)
  show ?case using Cons[of "snd (GetServer Ys r (entry_Name e))"] GetServer_index[of Ys r "entry_Name e"]
    by (simp add: hydrate_Cons del: hydrate.simps(2))
qed

lemma cursor_scan_le: "cursor_scan xs c i \<le> i + length xs"
proof (induction xs arbitrary: i)
  case Nil show ?case by simp
next
  case (Cons a xs)
  show ?case using Cons[of "i + 1"] by simp
qed

lemma start_index_le: "start_index xs c \<le> length xs"
  using cursor_scan_le[of xs c 0] by (simp add: start_index_def)

lemma ListServers_rows:
  fixes cursor :: string and limit :: int
  assumes "reg_index r = Some idx"
  defines "S \<equiv> sort_key entry_Name (index_Servers idx)"
  defines "k \<equiv> start_index S cursor"
  defines "L \<equiv> nat (effective_limit limit)"
  defines "rows \<equiv> take L (drop k S)"
  shows "ListServers Ys r cursor limit =
     (Inr \<lparr>list_Servers = fst (hydrate Ys r rows),
           list_Metadata = \<lparr>meta_NextCursor = (if k + L < length S then entry_Name (S ! (k + L - 1)) else []),
                            meta_Count = length rows\<rparr>\<rparr>,
      snd (hydrate Ys r rows))"
proof -
  have k: "k \<le> length S" by (simp add: k_def start_index_le)
  have "take ((if k + L > length S then length S else k + L) - k) (drop k S) = rows"
    using k by (simp add: rows_def)
  then show ?thesis
    using assms(1) k
    by (simp add: ListServers_def Let_def S_def[symmetric] k_def[symmetric] L_def[symmetric]
        hydrate_length case_prod_beta rows_def)
qed

lemma effective_limit_range: "1 \<le> effective_limit l \<and> effective_limit l \<le> 100"
  by (simp add: effective_limit_def Let_def)

lemma Refresh_fail:
  assumes "fst (Refresh Yi now r) = Some err"
  shows "snd (Refresh Yi now r) = r\<lparr>reg_cache := [], reg_cacheHits := 0, reg_cacheMisses := 0\<rparr>"
  using assms by (auto simp: Refresh_def LoadIndex_def lru_Purge_def split: sum.splits option.splits)

lemma lookup_unloaded:
  assumes "reg_index r = None" "reg_cache r = []"
  shows "lookupServer Ys r n = (Inl IndexNotLoaded, r\<lparr>reg_cacheMisses := reg_cacheMisses r + 1\<rparr>)"
  using assms by (simp add: lookupServer_def lru_Get_def Let_def)

lemma read_errors_unloaded:
  "reg_index r = None \<Longrightarrow> reg_cache r = [] \<Longrightarrow> list_all (\<lambda>e. e = Some IndexNotLoaded) (read_errors Ys r cs)"
proof (induction cs arbitrary: r)
  case Nil show ?case by simp
next
  case (Cons c cs)
  show ?case
  proof (cases c)
    case (CallGet n)
    then show ?thesis using Cons.prems Cons.IH[of "r\<lparr>reg_cacheMisses := reg_cacheMisses r + 1\<rparr>"]
      by (simp add: read_call_error_def GetServer_def lookup_unloaded)
  next
    case (CallList cu li)
    then show ?thesis using Cons.prems Cons.IH[of r]
      by (simp add: read_call_error_def ListServers_def)
  qed
qed

lemma lookup_loaded: "reg_index r \<noteq> None \<Longrightarrow> fst (lookupServer Ys r n) \<noteq> Inl IndexNotLoaded"
  by (auto simp: lookupServer_def Let_def split: prod.splits option.splits sum.splits)

lemma ListServers_index: "reg_index (snd (ListServers Ys r c l)) = reg_index r"
proof (cases "reg_index r")
  case None
  then show ?thesis by (simp add: ListServers_def)
next
  case (Some idx)
  then show ?thesis by (simp add: ListServers_rows hydrate_index)
qed

lemma read_errors_loaded:
  "reg_index r \<noteq> None \<Longrightarrow> list_all (\<lambda>e. e \<noteq> Some IndexNotLoaded) (read_errors Ys r cs)"
proof (induction cs arbitrary: r)
  case Nil show ?case by simp
next
  case (Cons c cs)
  show ?case
  proof (cases c)
    case (CallGet n)
    obtain res r' where g: "GetServer Ys r n = (res, r')" by (cases "GetServer Ys r n")
    have "reg_index r' \<noteq> None" using GetServer_index[of Ys r n] g Cons.prems by simp
    moreover have "res \<noteq> Inl IndexNotLoaded" using lookup_loaded[OF Cons.prems, of Ys "normalizeName n"] g by (simp add: GetServer_def)
    ultimately show ?thesis using CallGet g Cons.IH[of r']
      by (auto simp: read_call_error_def split: sum.splits)
  next
    case (CallList cu li)
    obtain res r' where g: "ListServers Ys r cu li = (res, r')" by (cases "ListServers Ys r cu li")
    have "reg_index r' \<noteq> None" using ListServers_index[of Ys r cu li] g Cons.prems by simp
    moreover have "res \<noteq> Inl IndexNotLoaded" using Cons.prems g by (auto simp: ListServers_rows)
    ultimately show ?thesis using CallList g Cons.IH[of r']
      by (auto simp: read_call_error_def split: sum.splits)
  qed
qed

section \<open>Lookup by name\<close>

text \<open>
  Claim C6. For every name of the name grammar, \<open>GetServer\<close> on the percent-encoding of
  the name gives the result, and leaves the catalog in the state, that \<open>GetServer\<close> on
  the name itself gives; the same holds of the HTTP handler, which unescapes the path
  parameter before it calls the catalog.
\<close>

theorem GetServer_encoding_invariant:
  assumes "ServerNameRegex name"
  shows "GetServer Ys r (PathEscape name) = GetServer Ys r name
         \<and> Handlers_GetServer Ys r (PathEscape name) = Handlers_GetServer Ys r name"
proof -
  have raw: "PathUnescape name = Inr name"
    using assms by (simp add: ServerNameRegex_no_percent PathUnescape_no_percent)
  have ne: "name \<noteq> []" "PathEscape name \<noteq> []"
    using assms by (simp_all add: ServerNameRegex_nonempty PathEscape_nonempty)
  show ?thesis
    using raw ne
    by (simp add: GetServer_def normalizeName_def Handlers_GetServer_def PathUnescape_PathEscape)
qed

theorem GetServer_encoding_invariant_witness:
  "ServerNameRegex ''io.x/a''
   \<and> PathEscape ''io.x/a'' = ''io.x%2Fa''
   \<and> GetServer demo_Ys demo_registry ''io.x%2Fa'' = GetServer demo_Ys demo_registry ''io.x/a''
   \<and> Handlers_GetServer demo_Ys demo_registry ''io.x%2Fa''
       = Handlers_GetServer demo_Ys demo_registry ''io.x/a''"
  using GetServer_encoding_invariant [OF ServerNameRegex_demo, of demo_Ys demo_registry]
  by (simp add: ServerNameRegex_demo PathEscape_demo)

text \<open>
  Claim C10. When the percent-decoding of the input fails, \<open>GetServer\<close> reports no
  decoding error: it looks the raw input up as the name. The errors it can then
  return are that no index is loaded, that no entry has the raw input as its name, that
  the manifest file cannot be read, and that the manifest file does not decode.
\<close>

theorem GetServer_decode_failure_falls_back:
  assumes "PathUnescape name = Inl err"
  shows "GetServer Ys r name = lookupServer Ys r name
         \<and> (case fst (GetServer Ys r name) of
              Inr server \<Rightarrow> True
            | Inl e \<Rightarrow> e = IndexNotLoaded \<or> e = ServerNotFound name
                       \<or> (\<exists>se. e = ServerReadFailed se) \<or> e = ServerParseFailed)"
proof -
  have eq: "GetServer Ys r name = lookupServer Ys r name"
    using assms by (simp add: GetServer_def normalizeName_def)
  have "case fst (lookupServer Ys r name) of
          Inr server \<Rightarrow> True
        | Inl e \<Rightarrow> e = IndexNotLoaded \<or> e = ServerNotFound name
                   \<or> (\<exists>se. e = ServerReadFailed se) \<or> e = ServerParseFailed"
    by (auto simp: lookupServer_def Let_def split: prod.splits option.splits sum.splits)
  with eq show ?thesis by simp
qed

lemma PathUnescape_demo_failure: "PathUnescape ''io.x%2'' = Inl (EscapeError ''%2'')"
  by (simp add: PathUnescape_def ishex_def less_eq_char_def)

theorem GetServer_decode_failure_falls_back_witness:
  "PathUnescape ''io.x%2'' = Inl (EscapeError ''%2'')
   \<and> GetServer demo_Ys demo_registry ''io.x%2'' = lookupServer demo_Ys demo_registry ''io.x%2''
   \<and> fst (GetServer demo_Ys demo_registry ''io.x%2'') = Inl (ServerNotFound ''io.x%2'')"
proof -
  have "fst (lookupServer demo_Ys demo_registry ''io.x%2'') = Inl (ServerNotFound ''io.x%2'')"
    by (simp add: lookupServer_def lru_Get_def demo_registry_def demo_index_def row_def Let_def)
  then show ?thesis
    using GetServer_decode_failure_falls_back
            [OF PathUnescape_demo_failure, of demo_Ys demo_registry]
    by (simp add: PathUnescape_demo_failure)
qed

section \<open>Refresh\<close>

lemma Refresh_loaded_fails: "Refresh demo_Yi 9 loaded_registry =
    (Some IndexParseFailed, loaded_registry\<lparr>reg_cacheHits := 0, reg_cacheMisses := 0\<rparr>)"
  by (simp add: Refresh_def LoadIndex_def ReadFile_def loaded_registry_def demo_registry_def broken_store_def
        demo_store_def demo_Yi_def lru_Purge_def)

lemma normalizeName_demo [simp]: "normalizeName ''io.x/a'' = ''io.x/a''" "normalizeName ''io.x/b'' = ''io.x/b''" "normalizeName ''io.x/c'' = ''io.x/c''"
  by (simp_all add: normalizeName_def PathUnescape_def)

text \<open>
  Claim C1 does not hold of a catalog that had an index before the refresh: here the
  refresh fails on a malformed \<open>index.yaml\<close>, and afterwards the status is still
  \<open>valid\<close>, a lookup returns its manifest and a list call returns the three rows.
\<close>

theorem failed_refresh_counterexample:
  "fst (Refresh demo_Yi 9 loaded_registry) = Some IndexParseFailed
   \<and> IndexStatus (snd (Refresh demo_Yi 9 loaded_registry)) = ''valid''
   \<and> IndexStatus (snd (Refresh demo_Yi 9 loaded_registry)) \<noteq> ''not_loaded''
   \<and> fst (GetServer demo_Ys (snd (Refresh demo_Yi 9 loaded_registry)) ''io.x/a'')
       = Inr (manifest ''io.x/a'')
   \<and> page_names (list_page (fst (ListServers demo_Ys (snd (Refresh demo_Yi 9 loaded_registry)) [] 30)))
       = [''io.x/a'', ''io.x/b'', ''io.x/c'']"
  apply (simp add: Refresh_loaded_fails)
  apply (simp add: IndexStatus_def loaded_registry_def demo_registry_def)
  apply (simp add: GetServer_def lookupServer_def lru_Get_def lru_Add_def Let_def demo_index_def row_def
      ReadFile_def broken_store_def demo_store_def demo_files_def demo_Ys_def
      ListServers_def effective_limit_def start_index_def list_page_def page_names_def manifest_def)
  done

text \<open>
  Claim C1, amended. A refresh whose load fails leaves the index as it was, with the
  cache purged and both counters at zero. So the status after the failed refresh is
  \<open>not_loaded\<close>, and every later get and list call fails with the error that no
  index is loaded, exactly when no index had been loaded before the refresh; when one
  had been loaded, the status stays \<open>valid\<close> and no later get or list call fails
  with that error.
\<close>

theorem failed_refresh_keeps_index:
  assumes "fst (Refresh Yi now r) = Some err"
  shows "reg_index (snd (Refresh Yi now r)) = reg_index r
       \<and> IndexStatus (snd (Refresh Yi now r)) = IndexStatus r
       \<and> reg_cache (snd (Refresh Yi now r)) = []
       \<and> reg_cacheHits (snd (Refresh Yi now r)) = 0
       \<and> reg_cacheMisses (snd (Refresh Yi now r)) = 0
       \<and> (reg_index r = None \<longrightarrow>
            IndexStatus (snd (Refresh Yi now r)) = ''not_loaded''
            \<and> (\<forall>cs. list_all (\<lambda>e. e = Some IndexNotLoaded)
                       (read_errors Ys (snd (Refresh Yi now r)) cs)))
       \<and> (reg_index r \<noteq> None \<longrightarrow>
            IndexStatus (snd (Refresh Yi now r)) = ''valid''
            \<and> (\<forall>cs. list_all (\<lambda>e. e \<noteq> Some IndexNotLoaded)
                       (read_errors Ys (snd (Refresh Yi now r)) cs)))"
proof -
  let ?r' = "r\<lparr>reg_cache := [], reg_cacheHits := 0, reg_cacheMisses := 0\<rparr>"
  have r': "snd (Refresh Yi now r) = ?r'" by (rule Refresh_fail[OF assms])
  have un: "reg_index r = None \<Longrightarrow> list_all (\<lambda>e. e = Some IndexNotLoaded) (read_errors Ys ?r' cs)" for cs
    by (rule read_errors_unloaded) simp_all
  have lo: "reg_index r \<noteq> None \<Longrightarrow> list_all (\<lambda>e. e \<noteq> Some IndexNotLoaded) (read_errors Ys ?r' cs)" for cs
    by (rule read_errors_loaded) simp
  show ?thesis
    unfolding r' using un lo by (auto simp: IndexStatus_def)
qed

theorem failed_refresh_keeps_index_witness:
  "fst (Refresh demo_Yi 9 loaded_registry) = Some IndexParseFailed
   \<and> IndexStatus (snd (Refresh demo_Yi 9 loaded_registry)) = ''valid''
   \<and> list_all (\<lambda>e. e \<noteq> Some IndexNotLoaded)
        (read_errors demo_Ys (snd (Refresh demo_Yi 9 loaded_registry)) [CallGet ''io.x/a'', CallList [] 0])
   \<and> fst (Refresh demo_Yi 9 unloaded_registry) = Some IndexParseFailed
   \<and> IndexStatus (snd (Refresh demo_Yi 9 unloaded_registry)) = ''not_loaded''
   \<and> list_all (\<lambda>e. e = Some IndexNotLoaded)
        (read_errors demo_Ys (snd (Refresh demo_Yi 9 unloaded_registry)) [CallGet ''io.x/a'', CallList [] 0])"
proof -
  have a: "fst (Refresh demo_Yi 9 loaded_registry) = Some IndexParseFailed"
    by (simp add: Refresh_loaded_fails)
  have b: "fst (Refresh demo_Yi 9 unloaded_registry) = Some IndexParseFailed"
    by (simp add: Refresh_def LoadIndex_def ReadFile_def unloaded_registry_def demo_registry_def broken_store_def
        demo_store_def demo_Yi_def lru_Purge_def)
  have c: "reg_index loaded_registry \<noteq> None" "reg_index unloaded_registry = None"
    by (simp_all add: loaded_registry_def unloaded_registry_def demo_registry_def)
  note l = failed_refresh_keeps_index [OF a, of demo_Ys]
  note u = failed_refresh_keeps_index [OF b, of demo_Ys]
  from l c(1) have l1: "IndexStatus (snd (Refresh demo_Yi 9 loaded_registry)) = ''valid''"
    and l2: "\<forall>cs. list_all (\<lambda>e. e \<noteq> Some IndexNotLoaded)
               (read_errors demo_Ys (snd (Refresh demo_Yi 9 loaded_registry)) cs)"
    by blast+
  from u c(2) have u1: "IndexStatus (snd (Refresh demo_Yi 9 unloaded_registry)) = ''not_loaded''"
    and u2: "\<forall>cs. list_all (\<lambda>e. e = Some IndexNotLoaded)
               (read_errors demo_Ys (snd (Refresh demo_Yi 9 unloaded_registry)) cs)"
    by blast+
  from a b l1 l2 u1 u2 show ?thesis by blast
qed

section \<open>Page size\<close>

lemma Atoi_overflow: "Atoi ''9223372036854775808'' = Inl ErrRange"
  by (simp add: Atoi_def isDigit_def digits_value_def less_eq_char_def)

lemma ListServers_page_length:
  assumes "reg_index r = Some idx"
  shows "length (list_page (fst (ListServers Ys r cursor limit)))
           = min (nat (effective_limit limit))
                 (length (index_Servers idx)
                  - start_index (sort_key entry_Name (index_Servers idx)) cursor)"
  by (simp add: ListServers_rows[OF assms] list_page_def hydrate_length min.commute)

lemma Handlers_ListServers_page:
  "body_page (fst (Handlers_ListServers Ys r cursor limitStr))
     = list_page (fst (ListServers Ys r cursor (query_limit limitStr)))"
  by (simp add: Handlers_ListServers_def body_page_def list_page_def writeError_def
      split: prod.splits sum.splits)

text \<open>
  Claim C8 does not hold of a limit that is a decimal number beyond the range of
  \<open>int\<close>: \<open>strconv.Atoi\<close> fails on it, the handler keeps its default, and a
  catalog of 101 rows serves a page of 30 entries, not of 100.
\<close>

theorem page_size_counterexample:
  "Atoi ''9223372036854775808'' = Inl ErrRange
   \<and> query_limit ''9223372036854775808'' = 30
   \<and> ServerCount wide_registry = 101
   \<and> length (body_page (fst (Handlers_ListServers demo_Ys wide_registry [] ''9223372036854775808'')))
       = 30"
proof -
  have i: "reg_index wide_registry
             = Some (demo_index\<lparr>index_Servers := replicate 101 (row ''io.x/a'' ''a.yaml'')\<rparr>)"
    by (simp add: wide_registry_def demo_registry_def)
  have q: "query_limit ''9223372036854775808'' = 30"
    by (simp add: query_limit_def Atoi_overflow)
  have "length (body_page (fst (Handlers_ListServers demo_Ys wide_registry [] ''9223372036854775808''))) = 30"
    by (simp add: Handlers_ListServers_page q ListServers_page_length[OF i] start_index_def
        effective_limit_def)
  then show ?thesis using q by (simp add: Atoi_overflow ServerCount_def i)
qed

lemma digits_value_nonneg_aux:
  "list_all isDigit ds \<Longrightarrow> 0 \<le> n \<Longrightarrow> 0 \<le> foldl (\<lambda>n ch. n * 10 + (int (of_char ch) - 48)) n ds"
proof (induction ds arbitrary: n)
  case Nil then show ?case by simp
next
  case (Cons d ds)
  have "48 \<le> (of_char d :: nat)" using Cons.prems(1) by (simp add: isDigit_def less_eq_char_def)
  then have "0 \<le> n * 10 + (int (of_char d) - 48)" using Cons.prems(2) by simp
  then show ?case using Cons by simp
qed

lemma digits_value_nonneg: "list_all isDigit ds \<Longrightarrow> 0 \<le> digits_value ds"
  by (simp add: digits_value_def digits_value_nonneg_aux)

lemma isDigit_not_sign: "isDigit c \<Longrightarrow> c \<noteq> CHR ''-'' \<and> c \<noteq> CHR ''+''"
  by (auto simp: isDigit_def less_eq_char_def)

lemma Atoi_digits:
  assumes "ds \<noteq> []" "list_all isDigit ds"
  shows "Atoi ds = (if 2 ^ 63 \<le> digits_value ds then Inl ErrRange else Inr (digits_value ds))"
proof -
  have "isDigit (hd ds)" using assms by (cases ds) simp_all
  then have "hd ds \<noteq> CHR ''-''" "hd ds \<noteq> CHR ''+''" using isDigit_not_sign by blast+
  then show ?thesis using assms digits_value_nonneg[OF assms(2)]
    by (auto simp: Atoi_def Let_def)
qed

text \<open>
  Claim C8, amended. The catalog serves with the page size \<open>30\<close> for a limit that is
  not positive, \<open>100\<close> for a limit above \<open>100\<close>, and the limit itself otherwise,
  so always with a size from \<open>1\<close> to \<open>100\<close>. The handler passes the limit of the query
  on when \<open>strconv.Atoi\<close> reads it as a positive \<open>int\<close>, and \<open>30\<close> otherwise:
  for an absent or empty limit, for text that is no number, and for a number outside
  the 64-bit range. The page holds as many entries as that size allows, or the entries
  that remain after the start position when these are fewer.
\<close>

theorem page_size_clamped:
  "effective_limit limit = (if limit \<le> 0 then 30 else if limit > 100 then 100 else limit)
   \<and> 1 \<le> effective_limit limit \<and> effective_limit limit \<le> 100
   \<and> effective_limit (query_limit limitStr)
       = (case Atoi limitStr of
            Inl err \<Rightarrow> 30
          | Inr l \<Rightarrow> if l \<le> 0 then 30 else if l > 100 then 100 else l)
   \<and> (limitStr \<noteq> [] \<and> list_all isDigit limitStr \<longrightarrow>
        effective_limit (query_limit limitStr)
          = (if digits_value limitStr = 0 \<or> 2 ^ 63 \<le> digits_value limitStr then 30
             else if digits_value limitStr > 100 then 100 else digits_value limitStr))
   \<and> (reg_index r = Some idx \<longrightarrow>
        length (list_page (fst (ListServers Ys r cursor limit)))
          = min (nat (effective_limit limit))
                (length (index_Servers idx)
                 - start_index (sort_key entry_Name (index_Servers idx)) cursor)
        \<and> body_page (fst (Handlers_ListServers Ys r cursor limitStr))
          = list_page (fst (ListServers Ys r cursor (query_limit limitStr))))"
proof -
  have a: "effective_limit limit = (if limit \<le> 0 then 30 else if limit > 100 then 100 else limit)"
    by (simp add: effective_limit_def Let_def)
  have b: "effective_limit (query_limit limitStr)
       = (case Atoi limitStr of
            Inl err \<Rightarrow> 30
          | Inr l \<Rightarrow> if l \<le> 0 then 30 else if l > 100 then 100 else l)"
    by (auto simp: query_limit_def effective_limit_def Let_def Atoi_def split: sum.splits)
  have c: "limitStr \<noteq> [] \<and> list_all isDigit limitStr \<longrightarrow>
        effective_limit (query_limit limitStr)
          = (if digits_value limitStr = 0 \<or> 2 ^ 63 \<le> digits_value limitStr then 30
             else if digits_value limitStr > 100 then 100 else digits_value limitStr)"
    using digits_value_nonneg[of limitStr] by (auto simp: b Atoi_digits)
  show ?thesis
    using a b c effective_limit_range[of limit]
    by (simp add: ListServers_page_length Handlers_ListServers_page)
qed

lemma Atoi_250: "Atoi ''250'' = Inr 250"
  by (simp add: Atoi_def isDigit_def digits_value_def less_eq_char_def)

theorem page_size_clamped_witness:
  "effective_limit 0 = 30 \<and> effective_limit 250 = 100 \<and> effective_limit 7 = 7
   \<and> effective_limit (query_limit []) = 30
   \<and> effective_limit (query_limit ''250'') = 100
   \<and> effective_limit (query_limit ''9223372036854775808'') = 30
   \<and> length (list_page (fst (ListServers demo_Ys wide_registry [] 250))) = 100
   \<and> length (list_page (fst (ListServers demo_Ys wide_registry [] 0))) = 30
   \<and> length (body_page (fst (Handlers_ListServers demo_Ys wide_registry [] ''250''))) = 100"
proof -
  have i: "reg_index wide_registry
             = Some (demo_index\<lparr>index_Servers := replicate 101 (row ''io.x/a'' ''a.yaml'')\<rparr>)"
    by (simp add: wide_registry_def demo_registry_def)
  have e: "Atoi [] = Inl ErrSyntax" by (simp add: Atoi_def)
  note t1 = page_size_clamped [of 0 "[]" wide_registry
      "demo_index\<lparr>index_Servers := replicate 101 (row ''io.x/a'' ''a.yaml'')\<rparr>" demo_Ys "[]"]
  note t2 = page_size_clamped [of 250 "''250''" wide_registry
      "demo_index\<lparr>index_Servers := replicate 101 (row ''io.x/a'' ''a.yaml'')\<rparr>" demo_Ys "[]"]
  note t3 = page_size_clamped [of 7 "''9223372036854775808''" wide_registry
      "demo_index\<lparr>index_Servers := replicate 101 (row ''io.x/a'' ''a.yaml'')\<rparr>" demo_Ys "[]"]
  have q: "query_limit ''250'' = 250" by (simp add: query_limit_def Atoi_250)
  from t1 i e have "effective_limit 0 = 30" "effective_limit (query_limit []) = 30"
    "length (list_page (fst (ListServers demo_Ys wide_registry [] 0))) = 30"
    by (simp_all add: start_index_def)
  moreover from t2 i have "effective_limit 250 = 100" "effective_limit (query_limit ''250'') = 100"
    "length (list_page (fst (ListServers demo_Ys wide_registry [] 250))) = 100"
    "length (body_page (fst (Handlers_ListServers demo_Ys wide_registry [] ''250''))) = 100"
    by (simp_all add: start_index_def Atoi_250 q)
  moreover from t3 have "effective_limit 7 = 7" "effective_limit (query_limit ''9223372036854775808'') = 30"
    by (simp_all add: Atoi_overflow)
  ultimately show ?thesis by simp
qed

section \<open>Pagination\<close>

lemma cursor_scan_absent: "cursor \<notin> entry_Name ` set xs \<Longrightarrow> cursor_scan xs cursor i = 0"
  by (induction xs arbitrary: i) auto

lemma cursor_scan_offset:
  "cursor \<in> entry_Name ` set xs \<Longrightarrow> cursor_scan xs cursor i = i + cursor_scan xs cursor 0"
proof (induction xs arbitrary: i)
  case Nil
  then show ?case by simp
next
  case (Cons x xs)
  show ?case
  proof (cases "entry_Name x = cursor")
    case True
    then show ?thesis by simp
  next
    case False
    with Cons.prems have "cursor \<in> entry_Name ` set xs" by auto
    from Cons.IH[OF this, of "i + 1"] Cons.IH[OF this, of 1] False show ?thesis by simp
  qed
qed

lemma cursor_scan_nth:
  "distinct (map entry_Name xs) \<Longrightarrow> j < length xs \<Longrightarrow> cursor_scan xs (entry_Name (xs ! j)) 0 = j + 1"
proof (induction xs arbitrary: j)
  case Nil
  then show ?case by simp
next
  case (Cons x xs)
  show ?case
  proof (cases j)
    case 0
    then show ?thesis by simp
  next
    case (Suc j')
    with Cons.prems have j': "j' < length xs" by simp
    then have mem: "entry_Name (xs ! j') \<in> entry_Name ` set xs" by simp
    with Cons.prems(1) have ne: "entry_Name x \<noteq> entry_Name (xs ! j')" by auto
    have "cursor_scan xs (entry_Name (xs ! j')) 0 = j' + 1"
      using Cons.IH[OF _ j'] Cons.prems(1) by simp
    then show ?thesis
      using Suc ne cursor_scan_offset[OF mem, of 1] by simp
  qed
qed

lemma drop_cursor_scan:
  assumes "sorted (map entry_Name xs)" and "distinct (map entry_Name xs)"
    and "cursor \<in> entry_Name ` set xs"
  shows "drop (cursor_scan xs cursor 0) xs = dropWhile (\<lambda>e. entry_Name e \<le> cursor) xs"
  using assms
proof (induction xs)
  case Nil
  then show ?case by simp
next
  case (Cons x xs)
  show ?case
  proof (cases "entry_Name x = cursor")
    case True
    have "\<forall>y \<in> set xs. cursor < entry_Name y"
      using Cons.prems(1,2) True by (auto simp: less_le)
    then have "dropWhile (\<lambda>e. entry_Name e \<le> cursor) xs = xs"
      by (cases xs) (auto simp: not_le)
    then show ?thesis using True by simp
  next
    case False
    with Cons.prems(3) have mem: "cursor \<in> entry_Name ` set xs" by auto
    with Cons.prems(1) have le: "entry_Name x \<le> cursor" by auto
    have "drop (cursor_scan xs cursor 0) xs = dropWhile (\<lambda>e. entry_Name e \<le> cursor) xs"
      using Cons.IH mem Cons.prems(1,2) by simp
    then show ?thesis
      using False le cursor_scan_offset[OF mem, of 1] by simp
  qed
qed

lemma sorted_names_sort_key: "sorted (map entry_Name (sort_key entry_Name xs))"
  by (rule sorted_sort_key)

lemma distinct_names_sort_key:
  "distinct (map entry_Name (sort_key entry_Name xs)) = distinct (map entry_Name xs)"
  by (induction xs) (simp_all add: distinct_insort_key)

lemma start_index_present:
  assumes "distinct (map entry_Name xs)" and "cursor \<noteq> []" and "cursor \<in> entry_Name ` set xs"
  shows "drop (start_index (sort_key entry_Name xs) cursor) (sort_key entry_Name xs)
           = dropWhile (\<lambda>e. entry_Name e \<le> cursor) (sort_key entry_Name xs)"
  using assms drop_cursor_scan[of "sort_key entry_Name xs" cursor]
  by (simp add: start_index_def sorted_names_sort_key distinct_names_sort_key)

lemma start_index_absent:
  "cursor \<notin> entry_Name ` set xs \<Longrightarrow> start_index (sort_key entry_Name xs) cursor = 0"
  by (simp add: start_index_def cursor_scan_absent)


lemmas demo_eval =
  GetServer_def lookupServer_def lru_Get_def lru_Add_def Let_def demo_index_def row_def
  ReadFile_def demo_store_def demo_files_def demo_Ys_def demo_registry_def
  ListServers_def effective_limit_def start_index_def list_page_def list_next_def page_names_def
  manifest_def normalizeName_def PathUnescape_def page_after_def


text \<open>
  Claim C2, amended. For every loaded index whose entry names are pairwise distinct
  and every nonempty cursor, the page \<open>ListServers\<close> returns is the hydration of these
  rows of the index sorted by name: when the cursor is the name of an entry, the rows
  from the first entry whose name is strictly greater than the cursor; when the cursor
  is the name of no entry, the rows from the first entry of the index. In both cases
  at most as many rows as the page size allows.
\<close>

theorem cursor_page:
  assumes "reg_index r = Some idx" and "cursor \<noteq> []"
    and "distinct (map entry_Name (index_Servers idx))"
  shows "list_page (fst (ListServers Ys r cursor limit))
           = fst (hydrate Ys r
                   (if cursor \<in> entry_Name ` set (index_Servers idx)
                    then page_after (sort_key entry_Name (index_Servers idx)) cursor
                           (nat (effective_limit limit))
                    else take (nat (effective_limit limit))
                           (sort_key entry_Name (index_Servers idx))))"
proof (cases "cursor \<in> entry_Name ` set (index_Servers idx)")
  case True
  then show ?thesis
    using start_index_present[OF assms(3,2) True]
    by (simp add: ListServers_rows[OF assms(1)] list_page_def page_after_def)
next
  case False
  then show ?thesis
    using start_index_absent[OF False]
    by (simp add: ListServers_rows[OF assms(1)] list_page_def)
qed

text \<open>
  Claim C2 does not hold of a cursor that names no entry, nor of a cursor whose name
  the index lists twice: with the rows \<open>a\<close>, \<open>b\<close>, \<open>c\<close> and the cursor \<open>io.x/ab\<close>
  the page begins at \<open>a\<close>, where the first entry strictly greater is \<open>b\<close>; with
  the rows \<open>a\<close>, \<open>a\<close>, \<open>b\<close> and the cursor \<open>io.x/a\<close> the page begins at the second
  \<open>a\<close>.
\<close>

theorem cursor_page_counterexample:
  "page_names (list_page (fst (ListServers demo_Ys demo_registry ''io.x/ab'' 30)))
     = [''io.x/a'', ''io.x/b'', ''io.x/c'']
   \<and> map entry_Name (page_after (sort_key entry_Name (index_Servers demo_index)) ''io.x/ab'' 30)
     = [''io.x/b'', ''io.x/c'']
   \<and> page_names (list_page (fst (ListServers demo_Ys twin_registry ''io.x/a'' 30)))
     = [''io.x/a'', ''io.x/b'']
   \<and> map entry_Name
        (page_after (sort_key entry_Name
           [row ''io.x/a'' ''a.yaml'', row ''io.x/a'' ''a.yaml'', row ''io.x/b'' ''b.yaml''])
           ''io.x/a'' 30)
     = [''io.x/b'']"
  by (simp add: demo_eval twin_registry_def)


theorem cursor_page_witness:
  "page_names (list_page (fst (ListServers demo_Ys demo_registry ''io.x/a'' 1))) = [''io.x/b'']
   \<and> page_names (list_page (fst (ListServers demo_Ys demo_registry ''io.x/ab'' 1))) = [''io.x/a'']"
proof -
  have i: "reg_index demo_registry = Some demo_index" by (simp add: demo_registry_def)
  have d: "distinct (map entry_Name (index_Servers demo_index))"
    by (simp add: demo_index_def row_def)
  have c: "''io.x/a'' \<noteq> []" "''io.x/ab'' \<noteq> []" by simp_all
  have m: "''io.x/a'' \<in> entry_Name ` set (index_Servers demo_index)"
    "''io.x/ab'' \<notin> entry_Name ` set (index_Servers demo_index)"
    by (simp_all add: demo_index_def row_def)
  have "page_names (fst (hydrate demo_Ys demo_registry
           (page_after (sort_key entry_Name (index_Servers demo_index)) ''io.x/a'' (nat (effective_limit 1)))))
          = [''io.x/b'']"
    by (simp add: demo_eval)
  moreover have "page_names (fst (hydrate demo_Ys demo_registry
           (take (nat (effective_limit 1)) (sort_key entry_Name (index_Servers demo_index)))))
          = [''io.x/a'']"
    by (simp add: demo_eval)
  ultimately show ?thesis
    using cursor_page [OF i c(1) d, of demo_Ys 1] cursor_page [OF i c(2) d, of demo_Ys 1] m
    by simp
qed

lemma manifests_agree_iff:
  "manifests_agree Ys r \<longleftrightarrow>
     list_all (\<lambda>p. server_Name (snd p) = fst p) (reg_cache r) \<and>
     (\<forall>idx. reg_index r = Some idx \<longrightarrow> list_all (files_agree Ys (reg_store r)) (index_Servers idx))"
  by (simp add: manifests_agree_def split: option.splits)

lemma lookupServer_agree:
  assumes "manifests_agree Ys r"
  shows "manifests_agree Ys (snd (lookupServer Ys r n))
         \<and> (\<forall>s. fst (lookupServer Ys r n) = Inr s \<longrightarrow> server_Name s = n)"
proof (cases "map_of (reg_cache r) n")
  case (Some v)
  then have "(n, v) \<in> set (reg_cache r)" by (rule map_of_SomeD)
  with assms have "server_Name v = n" by (auto simp: manifests_agree_iff list_all_iff)
  with assms Some show ?thesis
    by (auto simp: lookupServer_def lru_Get_def manifests_agree_iff list_all_iff)
next
  case None
  show ?thesis
  proof (cases "reg_index r")
    case N: None
    with None assms show ?thesis
      by (simp add: lookupServer_def lru_Get_def Let_def manifests_agree_iff)
  next
    case (Some idx)
    show ?thesis
    proof (cases "find (\<lambda>e. entry_Name e = n) (index_Servers idx)")
      case F: None
      with None Some assms show ?thesis
        by (simp add: lookupServer_def lru_Get_def Let_def manifests_agree_iff)
    next
      case F: (Some entry)
      then have "entry \<in> set (index_Servers idx)" and nm: "entry_Name entry = n"
        by (auto simp: find_Some_iff)
      with assms Some have fa: "files_agree Ys (reg_store r) entry"
        by (auto simp: manifests_agree_iff list_all_iff)
      have c: "list_all (\<lambda>p. server_Name (snd p) = fst p) (reg_cache r)"
        using assms by (simp add: manifests_agree_iff)
      have keep: "server_Name s = n \<Longrightarrow>
            list_all (\<lambda>p. server_Name (snd p) = fst p)
              (lru_Add (reg_cacheSize r) n s (reg_cache r))" for s
        using c by (auto simp: lru_Add_def list_all_iff dest!: in_set_takeD)
      show ?thesis
      proof (cases "ReadFile (reg_store r) (entry_Path entry)")
        case (Inl e)
        with None Some F assms show ?thesis
          by (simp add: lookupServer_def lru_Get_def Let_def manifests_agree_iff)
      next
        case (Inr content)
        show ?thesis
        proof (cases "Ys content")
          case P: None
          with None Some F Inr assms show ?thesis
            by (simp add: lookupServer_def lru_Get_def Let_def manifests_agree_iff)
        next
          case P: (Some s)
          with fa Inr nm have "server_Name s = n" by (simp add: files_agree_def)
          with None Some F Inr P assms keep[of s] show ?thesis
            by (simp add: lookupServer_def lru_Get_def Let_def manifests_agree_iff)
        qed
      qed
    qed
  qed
qed

lemma hydrate_agree:
  assumes "manifests_agree Ys r" and "reg_index r = Some idx"
    and "set es \<subseteq> set (index_Servers idx)"
  shows "page_names (fst (hydrate Ys r es)) = map entry_Name es
         \<and> manifests_agree Ys (snd (hydrate Ys r es))"
  using assms
proof (induction es arbitrary: r)
  case Nil
  then show ?case by (simp add: page_names_def)
next
  case (Cons e es)
  let ?g = "GetServer Ys r (entry_Name e)"
  from Cons.prems have "e \<in> set (index_Servers idx)" by simp
  with Cons.prems(1,2) have "normalizeName (entry_Name e) = entry_Name e"
    by (auto simp: manifests_agree_iff list_all_iff files_agree_def)
  then have g: "?g = lookupServer Ys r (entry_Name e)" by (simp add: GetServer_def)
  from lookupServer_agree[OF Cons.prems(1), of "entry_Name e"] g
  have a: "manifests_agree Ys (snd ?g)"
    and n: "\<And>s. fst ?g = Inr s \<Longrightarrow> server_Name s = entry_Name e" by simp_all
  have i: "reg_index (snd ?g) = Some idx" using Cons.prems(2) by (simp add: GetServer_index)
  from Cons.IH[OF a i] Cons.prems(3)
  have ih: "page_names (fst (hydrate Ys (snd ?g) es)) = map entry_Name es"
    "manifests_agree Ys (snd (hydrate Ys (snd ?g) es))" by simp_all
  have "server_Name (case fst ?g of Inl err \<Rightarrow> minimal_server e | Inr s \<Rightarrow> s) = entry_Name e"
    using n by (cases "fst ?g") (simp_all add: minimal_server_def)
  with ih show ?case by (simp add: hydrate_Cons page_names_def del: hydrate.simps(2))
qed

lemma ListServers_agree:
  assumes "reg_index r = Some idx" and "manifests_agree Ys r"
  shows "page_names (list_page (fst (ListServers Ys r cursor limit)))
           = take (nat (effective_limit limit))
               (drop (start_index (sort_key entry_Name (index_Servers idx)) cursor)
                  (map entry_Name (sort_key entry_Name (index_Servers idx))))"
    and "manifests_agree Ys (snd (ListServers Ys r cursor limit))"
proof -
  let ?S = "sort_key entry_Name (index_Servers idx)"
  let ?rows = "take (nat (effective_limit limit)) (drop (start_index ?S cursor) ?S)"
  have "set ?rows \<subseteq> set (index_Servers idx)"
    by (metis set_sort set_take_subset set_drop_subset subset_trans)
  from hydrate_agree[OF assms(2,1) this]
  show "page_names (list_page (fst (ListServers Ys r cursor limit)))
           = take (nat (effective_limit limit))
               (drop (start_index ?S cursor) (map entry_Name ?S))"
    and "manifests_agree Ys (snd (ListServers Ys r cursor limit))"
    by (simp_all add: ListServers_rows[OF assms(1)] list_page_def take_map drop_map)
qed

lemma ListServers_next:
  assumes "reg_index r = Some idx"
  shows "list_next (fst (ListServers Ys r cursor limit))
           = (let S = sort_key entry_Name (index_Servers idx);
                  k = start_index S cursor; L = nat (effective_limit limit)
              in if k + L < length S then entry_Name (S ! (k + L - 1)) else [])"
  by (simp add: ListServers_rows[OF assms] list_next_def Let_def)

lemma pagination_pass_Suc:
  "pagination_pass (Suc fuel) Ys r cursor limit =
     (case fst (ListServers Ys r cursor limit) of
        Inl err \<Rightarrow> None
      | Inr resp \<Rightarrow>
          (if list_next (fst (ListServers Ys r cursor limit)) = []
           then Some [list_page (fst (ListServers Ys r cursor limit))]
           else map_option ((#) (list_page (fst (ListServers Ys r cursor limit))))
                  (pagination_pass fuel Ys (snd (ListServers Ys r cursor limit))
                     (list_next (fst (ListServers Ys r cursor limit))) limit)))"
  by (simp add: list_next_def list_page_def split: prod.splits sum.splits)

lemma ListServers_Inr:
  "reg_index r = Some idx \<Longrightarrow> \<exists>resp. fst (ListServers Ys r cursor limit) = Inr resp"
  by (simp add: ListServers_rows)

lemma effective_limit_pos: "0 < nat (effective_limit limit)"
  using effective_limit_range[of limit] by simp

lemma pagination_pass_prefix:
  assumes "distinct (map entry_Name (index_Servers idx))"
  shows "reg_index r = Some idx \<Longrightarrow> manifests_agree Ys r \<Longrightarrow>
         length (index_Servers idx) - start_index (sort_key entry_Name (index_Servers idx)) cursor < fuel \<Longrightarrow>
         \<exists>pages j. pagination_pass fuel Ys r cursor limit = Some pages
           \<and> concat (map page_names pages)
               = take j (drop (start_index (sort_key entry_Name (index_Servers idx)) cursor)
                           (map entry_Name (sort_key entry_Name (index_Servers idx))))"
proof (induction fuel arbitrary: r cursor)
  case 0
  then show ?case by simp
next
  case (Suc fuel)
  let ?S = "sort_key entry_Name (index_Servers idx)"
  let ?N = "map entry_Name ?S"
  let ?L = "nat (effective_limit limit)"
  let ?k = "start_index ?S cursor"
  let ?ls = "ListServers Ys r cursor limit"
  have dS: "distinct (map entry_Name ?S)" using assms by (simp add: distinct_names_sort_key)
  have page: "page_names (list_page (fst ?ls)) = take ?L (drop ?k ?N)"
    and agree': "manifests_agree Ys (snd ?ls)"
    using ListServers_agree[OF Suc.prems(1,2)] by simp_all
  have idx': "reg_index (snd ?ls) = Some idx" using Suc.prems(1) by (simp add: ListServers_index)
  obtain resp where resp: "fst ?ls = Inr resp" using ListServers_Inr[OF Suc.prems(1)] by blast
  have nx: "list_next (fst ?ls) = (if ?k + ?L < length ?S then entry_Name (?S ! (?k + ?L - 1)) else [])"
    by (simp add: ListServers_next[OF Suc.prems(1)] Let_def)
  show ?case
  proof (cases "list_next (fst ?ls) = []")
    case True
    then have "pagination_pass (Suc fuel) Ys r cursor limit = Some [list_page (fst ?ls)]"
      by (simp add: pagination_pass_Suc resp del: pagination_pass.simps)
    with page show ?thesis by (intro exI[of _ "[list_page (fst ?ls)]"] exI[of _ ?L]) simp
  next
    case False
    let ?c = "list_next (fst ?ls)"
    from False nx have lt: "?k + ?L < length ?S" and c: "?c = entry_Name (?S ! (?k + ?L - 1))"
      by (auto split: if_splits)
    have Lpos: "0 < ?L" by (rule effective_limit_pos)
    have "start_index ?S ?c = cursor_scan ?S ?c 0" using False by (simp add: start_index_def)
    also have "\<dots> = (?k + ?L - 1) + 1"
      unfolding c using lt by (intro cursor_scan_nth[OF dS]) simp
    finally have k': "start_index ?S ?c = ?k + ?L" using Lpos by simp
    have fuel: "length (index_Servers idx) - start_index ?S ?c < fuel"
      using Suc.prems(3) k' lt Lpos by simp
    from Suc.IH[OF idx' agree' fuel]
    obtain pages j where p: "pagination_pass fuel Ys (snd ?ls) ?c limit = Some pages"
      and cc: "concat (map page_names pages) = take j (drop (?k + ?L) ?N)"
      using k' by auto
    have "pagination_pass (Suc fuel) Ys r cursor limit = Some (list_page (fst ?ls) # pages)"
      using False p by (simp add: pagination_pass_Suc resp del: pagination_pass.simps)
    moreover have "concat (map page_names (list_page (fst ?ls) # pages)) = take (?L + j) (drop ?k ?N)"
    proof -
      have "take (?L + j) (drop ?k ?N) = take ?L (drop ?k ?N) @ take j (drop ?L (drop ?k ?N))"
        by (rule take_add)
      moreover have "drop ?L (drop ?k ?N) = drop (?k + ?L) ?N" by (simp add: add.commute)
      ultimately show ?thesis using page cc by simp
    qed
    ultimately show ?thesis by blast
  qed
qed

lemma sorted_concat_member:
  "sorted (concat xss) \<Longrightarrow> xs \<in> set xss \<Longrightarrow> sorted xs"
  by (induction xss) (auto simp: sorted_append)


text \<open>
  Claim C7, amended. Within one index generation whose entry names are pairwise
  distinct and whose manifests agree with the index (each entry name is unchanged by
  percent-decoding, and each cached or decoded manifest carries the name of its entry),
  every page \<open>ListServers\<close> returns is sorted by name without a repeated name, and a
  full pagination pass from the empty cursor ends within one call more than the index
  has entries, with every page sorted and with the names of all its pages, in order,
  sorted and free of repetitions.
\<close>

theorem list_sorted_distinct:
  assumes "reg_index r = Some idx" and "distinct (map entry_Name (index_Servers idx))"
    and "manifests_agree Ys r"
  shows "sorted (page_names (list_page (fst (ListServers Ys r cursor limit))))
         \<and> distinct (page_names (list_page (fst (ListServers Ys r cursor limit))))
         \<and> (\<exists>pages. pagination_pass (Suc (length (index_Servers idx))) Ys r [] limit = Some pages
               \<and> list_all (\<lambda>p. sorted (page_names p)) pages
               \<and> sorted (concat (map page_names pages))
               \<and> distinct (concat (map page_names pages)))"
proof -
  let ?N = "map entry_Name (sort_key entry_Name (index_Servers idx))"
  have s: "sorted ?N" by (rule sorted_names_sort_key)
  have d: "distinct ?N" using assms(2) by (simp add: distinct_names_sort_key)
  have sd: "sorted (take j (drop k ?N)) \<and> distinct (take j (drop k ?N))" for j k
    using s d by (simp add: sorted_wrt_take sorted_wrt_drop)
  have one: "sorted (page_names (list_page (fst (ListServers Ys r cursor limit))))
         \<and> distinct (page_names (list_page (fst (ListServers Ys r cursor limit))))"
    using sd by (simp add: ListServers_agree(1)[OF assms(1,3)])
  have "length (index_Servers idx) - start_index (sort_key entry_Name (index_Servers idx)) []
          < Suc (length (index_Servers idx))" by simp
  from pagination_pass_prefix[OF assms(2,1,3) this]
  obtain pages j where p: "pagination_pass (Suc (length (index_Servers idx))) Ys r [] limit = Some pages"
    and c: "concat (map page_names pages)
              = take j (drop (start_index (sort_key entry_Name (index_Servers idx)) []) ?N)"
    by blast
  from c sd have sc: "sorted (concat (map page_names pages))"
    and dc: "distinct (concat (map page_names pages))" by simp_all
  have "list_all (\<lambda>p. sorted (page_names p)) pages"
    using sorted_concat_member[OF sc] by (auto simp: list_all_iff)
  with one p sc dc show ?thesis by blast
qed

text \<open>
  Claim C7 does not hold when a manifest carries another name than its index entry,
  nor when an entry name contains a percent escape: with distinct entry names, the
  page of the first catalog lists \<open>io.x/z\<close> twice and ahead of \<open>io.x/c\<close>, and the page
  of the second lists \<open>A\<close> twice, since the lookup of the row \<open>%41\<close> is decoded to
  \<open>A\<close>.
\<close>

theorem list_sorted_distinct_counterexample:
  "distinct (map entry_Name (index_Servers demo_index))
   \<and> reg_index renamed_registry = Some demo_index
   \<and> page_names (list_page (fst (ListServers demo_Ys renamed_registry [] 30)))
       = [''io.x/z'', ''io.x/z'', ''io.x/c'']
   \<and> \<not> sorted (page_names (list_page (fst (ListServers demo_Ys renamed_registry [] 30))))
   \<and> \<not> distinct (page_names (list_page (fst (ListServers demo_Ys renamed_registry [] 30))))
   \<and> reg_index escaped_registry = Some escaped_index
   \<and> distinct (map entry_Name (index_Servers escaped_index))
   \<and> normalizeName ''%41'' = ''A''
   \<and> list_all (files_agree demo_Ys (reg_store renamed_registry)) (index_Servers demo_index)
       = False
   \<and> page_names (list_page (fst (ListServers demo_Ys escaped_registry [] 30))) = [''A'', ''A'']
   \<and> \<not> distinct (page_names (list_page (fst (ListServers demo_Ys escaped_registry [] 30))))"
proof -
  have a: "page_names (list_page (fst (ListServers demo_Ys renamed_registry [] 30)))
       = [''io.x/z'', ''io.x/z'', ''io.x/c'']"
    by (simp add: demo_eval renamed_registry_def)
  have b: "page_names (list_page (fst (ListServers demo_Ys escaped_registry [] 30))) = [''A'', ''A'']"
    by (simp add: escaped_registry_def escaped_index_def) code_simp
  have c: "distinct (map entry_Name (index_Servers demo_index))"
    "reg_index renamed_registry = Some demo_index"
    "reg_index escaped_registry = Some escaped_index"
    "distinct (map entry_Name (index_Servers escaped_index))"
    by (simp_all add: demo_index_def row_def renamed_registry_def escaped_registry_def
        escaped_index_def demo_registry_def)
  have e: "normalizeName ''%41'' = ''A''"
    by (simp add: normalizeName_def) code_simp
  have f: "list_all (files_agree demo_Ys (reg_store renamed_registry)) (index_Servers demo_index)
       = False"
    by (simp add: files_agree_def renamed_registry_def demo_eval)
  show ?thesis unfolding a b using c e f by simp
qed

lemma demo_agree: "manifests_agree demo_Ys demo_registry"
  by (simp add: manifests_agree_def files_agree_def demo_eval)

theorem list_sorted_distinct_witness:
  "reg_index demo_registry = Some demo_index
   \<and> distinct (map entry_Name (index_Servers demo_index))
   \<and> manifests_agree demo_Ys demo_registry
   \<and> page_names (list_page (fst (ListServers demo_Ys demo_registry ''io.x/a'' 2)))
       = [''io.x/b'', ''io.x/c'']
   \<and> sorted (page_names (list_page (fst (ListServers demo_Ys demo_registry ''io.x/a'' 2))))
   \<and> distinct (page_names (list_page (fst (ListServers demo_Ys demo_registry ''io.x/a'' 2))))
   \<and> map_option (map page_names) (pagination_pass 4 demo_Ys demo_registry [] 2)
       = Some [[''io.x/a'', ''io.x/b''], [''io.x/c'']]"
proof -
  have i: "reg_index demo_registry = Some demo_index" by (simp add: demo_registry_def)
  have d: "distinct (map entry_Name (index_Servers demo_index))"
    by (simp add: demo_index_def row_def)
  have p: "page_names (list_page (fst (ListServers demo_Ys demo_registry ''io.x/a'' 2)))
       = [''io.x/b'', ''io.x/c'']"
    by (simp add: demo_eval)
  have q: "map_option (map page_names) (pagination_pass 4 demo_Ys demo_registry [] 2)
       = Some [[''io.x/a'', ''io.x/b''], [''io.x/c'']]"
    by (simp add: eval_nat_numeral demo_eval)
  from list_sorted_distinct [OF i d demo_agree, of "''io.x/a''" 2]
  have "sorted (page_names (list_page (fst (ListServers demo_Ys demo_registry ''io.x/a'' 2))))"
    "distinct (page_names (list_page (fst (ListServers demo_Ys demo_registry ''io.x/a'' 2))))"
    by blast+
  with i d demo_agree p q show ?thesis by blast
qed

section \<open>Webhook ingress\<close>

lemma length_full_body: "length full_body = 128"
  by (simp add: full_body_def)

lemma SplitN2_sha256: "SplitN2 (''sha256='' @ x) = [''sha256'', x]"
  by (simp add: SplitN2_def)

lemma SplitN2_join:
  assumes "SplitN2 s = [a, b]"
  shows "s = a @ CHR ''='' # b"
proof -
  let ?P = "\<lambda>c. c \<noteq> CHR ''=''"
  from assms have eq: "CHR ''='' \<in> set s" and a: "a = takeWhile ?P s" and b: "b = tl (dropWhile ?P s)"
    by (auto simp: SplitN2_def split: if_splits)
  from eq have ne: "dropWhile ?P s \<noteq> []" by (simp add: dropWhile_eq_Nil_conv)
  then have "hd (dropWhile ?P s) = CHR ''=''" using hd_dropWhile[of ?P s] by auto
  then have "dropWhile ?P s = CHR ''='' # b" using ne b by (metis list.collapse)
  then show ?thesis using a takeWhile_dropWhile_id[of ?P s] by simp
qed

lemma validateSignature_iff:
  "validateSignature H h signature body \<longleftrightarrow> signature = ''sha256='' @ H (wh_secret h) body"
proof
  assume v: "validateSignature H h signature body"
  then have l: "length (SplitN2 signature) = 2" and p0: "SplitN2 signature ! 0 = ''sha256''"
    and p1: "SplitN2 signature ! 1 = H (wh_secret h) body"
    by (auto simp: validateSignature_def Let_def split: if_splits)
  from l obtain a b where ab: "SplitN2 signature = [a, b]"
    by (auto simp: SplitN2_def split: if_splits)
  with p0 p1 have "a = ''sha256''" "b = H (wh_secret h) body" by simp_all
  with SplitN2_join[OF ab] show "signature = ''sha256='' @ H (wh_secret h) body" by simp
next
  assume "signature = ''sha256='' @ H (wh_secret h) body"
  then show "validateSignature H h signature body"
    by (simp add: validateSignature_def SplitN2_sha256 del: append.simps)
qed

lemma signature_cases:
  "signature \<noteq> ''sha256='' @ mac \<longleftrightarrow>
     signature = [] \<or> (\<forall>x. signature \<noteq> ''sha256='' @ x)
     \<or> (\<exists>x. signature = ''sha256='' @ x \<and> x \<noteq> mac)"
  by auto

lemma ReadAll_oversize:
  "maxBody < length (req_Body r) \<Longrightarrow> ReadAll_LimitReader r = Some (take maxBody (req_Body r))"
  by (simp add: ReadAll_LimitReader_def)

lemma ServeHTTP_rejects:
  assumes "req_Method r = ''POST''" and "ReadAll_LimitReader r = Some body"
    and "req_Signature r \<noteq> ''sha256='' @ H (wh_secret h) body"
  shows "ServeHTTP H J h m r =
           \<lparr>out_reply = Reply 401 ''invalid signature'',
            out_effects = [ReadBody, CheckSignature], out_manager = m\<rparr>"
  using assms by (simp add: ServeHTTP_def validateSignature_iff)

lemma ServeHTTP_effects_order:
  "out_effects (ServeHTTP H J h m r)
     = take (length (out_effects (ServeHTTP H J h m r)))
         [ReadBody, CheckSignature, ParseBody, EmitTrigger]"
  by (simp add: ServeHTTP_def split: option.splits)

text \<open>
  Claim C5, amended. For every POST whose body is read without a read error, when the
  signature header is missing, or is not \<open>sha256=\<close> followed by a value, or carries a
  value that differs from the hexadecimal HMAC-SHA256, under the secret, of the body as
  read, the handler answers 401, does not decode the body (its run is the same for
  every decoder) and emits no trigger: the manager is left as it was. The body as read
  is the first 10 MiB of the request body, which is the request body itself when that
  is within the 10 MiB bound. In every run the calls are made in the order read, check
  signature, decode, trigger, so the check precedes any decoding.
\<close>

theorem bad_signature_rejected:
  assumes "req_Method r = ''POST''" and "ReadAll_LimitReader r = Some body"
    and "req_Signature r = []
         \<or> (\<forall>x. req_Signature r \<noteq> ''sha256='' @ x)
         \<or> (\<exists>x. req_Signature r = ''sha256='' @ x \<and> x \<noteq> H (wh_secret h) body)"
  shows "out_reply (ServeHTTP H J h m r) = Reply 401 ''invalid signature''
         \<and> out_effects (ServeHTTP H J h m r) = [ReadBody, CheckSignature]
         \<and> ParseBody \<notin> set (out_effects (ServeHTTP H J h m r))
         \<and> EmitTrigger \<notin> set (out_effects (ServeHTTP H J h m r))
         \<and> out_manager (ServeHTTP H J h m r) = m
         \<and> ServeHTTP H J' h m r = ServeHTTP H J h m r
         \<and> body = take maxBody (req_Body r)
         \<and> (length (req_Body r) \<le> maxBody \<longrightarrow> body = req_Body r)
         \<and> (\<forall>r'. out_effects (ServeHTTP H J h m r')
                    = take (length (out_effects (ServeHTTP H J h m r')))
                        [ReadBody, CheckSignature, ParseBody, EmitTrigger])"
proof -
  have ne: "req_Signature r \<noteq> ''sha256='' @ H (wh_secret h) body"
    using assms(3) signature_cases[of "req_Signature r" "H (wh_secret h) body"] by blast
  have b: "length (req_Body r) \<le> maxBody \<longrightarrow> body = req_Body r"
    using assms(2) by (auto simp: ReadAll_LimitReader_def split: if_splits)
  have t: "body = take maxBody (req_Body r)"
    using assms(2) by (auto simp: ReadAll_LimitReader_def split: if_splits)
  show ?thesis
    using ServeHTTP_rejects[where H = H and h = h, OF assms(1,2) ne] b t ServeHTTP_effects_order
    by simp
qed

lemma short_push_read: "ReadAll_LimitReader short_push = Some short_body"
  by (simp add: ReadAll_LimitReader_def short_push_def push_request_def short_body_def maxBody_def)

lemma demo_secret: "wh_secret demo_handler = ''s3cret''"
  by (simp add: demo_handler_def)

lemma demo_H_short:
  "demo_H ''s3cret'' short_body = ''232a5e067b6a5aa567ed5a1d21a0dffaf6ef0eeecb6bd9bcf43b3d5ef3fc4f43''"
  by (simp add: demo_H_def)

theorem bad_signature_rejected_witness:
  "req_Method (short_push\<lparr>req_Signature := []\<rparr>) = ''POST''
   \<and> out_reply (ServeHTTP demo_H demo_J demo_handler idle_manager (short_push\<lparr>req_Signature := []\<rparr>))
       = Reply 401 ''invalid signature''
   \<and> out_effects (ServeHTTP demo_H demo_J demo_handler idle_manager (short_push\<lparr>req_Signature := []\<rparr>))
       = [ReadBody, CheckSignature]
   \<and> out_manager (ServeHTTP demo_H demo_J demo_handler idle_manager (short_push\<lparr>req_Signature := []\<rparr>))
       = idle_manager
   \<and> out_reply (ServeHTTP demo_H demo_J demo_handler idle_manager
        (short_push\<lparr>req_Signature :=
           ''sha256=232a5e067b6a5aa567ed5a1d21a0dffaf6ef0eeecb6bd9bcf43b3d5ef3fc4f42''\<rparr>))
       = Reply 401 ''invalid signature''
   \<and> out_reply (ServeHTTP demo_H demo_J demo_handler idle_manager
        (short_push\<lparr>req_Signature :=
           ''sha1=232a5e067b6a5aa567ed5a1d21a0dffaf6ef0eeecb6bd9bcf43b3d5ef3fc4f43''\<rparr>))
       = Reply 401 ''invalid signature''"
proof -
  let ?mac = "''232a5e067b6a5aa567ed5a1d21a0dffaf6ef0eeecb6bd9bcf43b3d5ef3fc4f43''"
  let ?r1 = "short_push\<lparr>req_Signature := []\<rparr>"
  let ?r2 = "short_push\<lparr>req_Signature :=
           ''sha256=232a5e067b6a5aa567ed5a1d21a0dffaf6ef0eeecb6bd9bcf43b3d5ef3fc4f42''\<rparr>"
  let ?r3 = "short_push\<lparr>req_Signature :=
           ''sha1=232a5e067b6a5aa567ed5a1d21a0dffaf6ef0eeecb6bd9bcf43b3d5ef3fc4f43''\<rparr>"
  have m: "req_Method ?r1 = ''POST''" "req_Method ?r2 = ''POST''" "req_Method ?r3 = ''POST''"
    by (simp_all add: short_push_def push_request_def)
  have b: "ReadAll_LimitReader ?r1 = Some short_body" "ReadAll_LimitReader ?r2 = Some short_body"
    "ReadAll_LimitReader ?r3 = Some short_body"
    by (simp_all add: ReadAll_LimitReader_def short_push_def push_request_def short_body_def
        maxBody_def)
  have s1: "req_Signature ?r1 = []
         \<or> (\<forall>x. req_Signature ?r1 \<noteq> ''sha256='' @ x)
         \<or> (\<exists>x. req_Signature ?r1 = ''sha256='' @ x \<and> x \<noteq> demo_H (wh_secret demo_handler) short_body)"
    by simp
  have s2: "req_Signature ?r2 = []
         \<or> (\<forall>x. req_Signature ?r2 \<noteq> ''sha256='' @ x)
         \<or> (\<exists>x. req_Signature ?r2 = ''sha256='' @ x \<and> x \<noteq> demo_H (wh_secret demo_handler) short_body)"
    by (simp add: demo_handler_def demo_H_short)
  have s3: "req_Signature ?r3 = []
         \<or> (\<forall>x. req_Signature ?r3 \<noteq> ''sha256='' @ x)
         \<or> (\<exists>x. req_Signature ?r3 = ''sha256='' @ x \<and> x \<noteq> demo_H (wh_secret demo_handler) short_body)"
    by simp
  note t1 = bad_signature_rejected
    [where H = demo_H and h = demo_handler and J = demo_J and J' = demo_J and m = idle_manager,
     OF m(1) b(1) s1]
  note t2 = bad_signature_rejected
    [where H = demo_H and h = demo_handler and J = demo_J and J' = demo_J and m = idle_manager,
     OF m(2) b(2) s2]
  note t3 = bad_signature_rejected
    [where H = demo_H and h = demo_handler and J = demo_J and J' = demo_J and m = idle_manager,
     OF m(3) b(3) s3]
  from t1 t2 t3 m(1) show ?thesis by blast
qed

lemma ServeHTTP_push:
  assumes "req_Method r = ''POST''" and "ReadAll_LimitReader r = Some body"
    and "req_Signature r = ''sha256='' @ H (wh_secret h) body"
    and "req_Event r = ''push''" and "J body = Some event"
    and "push_Ref event = ''refs/heads/'' @ wh_branch h"
  shows "ServeHTTP H J h m r =
     (if length (push_Before event) < 8 \<or> length (push_After event) < 8
      then \<lparr>out_reply = Panic ''slice bounds out of range'',
            out_effects = [ReadBody, CheckSignature, ParseBody], out_manager = m\<rparr>
      else \<lparr>out_reply = Reply 200 accepted_body,
            out_effects = [ReadBody, CheckSignature, ParseBody, EmitTrigger],
            out_manager = Trigger m\<rparr>)"
  using assms validateSignature_iff[of H h "req_Signature r" body]
  by (simp add: ServeHTTP_def del: append.simps)

lemma full_push_accepted:
  "out_reply (ServeHTTP demo_H demo_J demo_handler idle_manager full_push) = Reply 200 accepted_body
   \<and> out_effects (ServeHTTP demo_H demo_J demo_handler idle_manager full_push)
       = [ReadBody, CheckSignature, ParseBody, EmitTrigger]
   \<and> mgr_triggerChan (out_manager (ServeHTTP demo_H demo_J demo_handler idle_manager full_push)) = 1"
proof -
  have m: "req_Method full_push = ''POST''" and e: "req_Event full_push = ''push''"
    by (simp_all add: full_push_def push_request_def)
  have b: "ReadAll_LimitReader full_push = Some full_body"
    by (simp add: ReadAll_LimitReader_def full_push_def push_request_def length_full_body
        maxBody_def)
  have h: "demo_H (wh_secret demo_handler) full_body
             = ''e7e53ca8892529d19f9f65766ff01c2e1608eb4f16989282322427f94dabb288''"
    by (simp add: demo_H_def demo_secret) (simp add: full_body_def short_body_def)
  have s: "req_Signature full_push = ''sha256='' @ demo_H (wh_secret demo_handler) full_body"
    unfolding h by (simp add: full_push_def push_request_def)
  have j: "demo_J full_body
             = Some (push_event ''0000000000000000000000000000000000000000''
                                ''1111111111111111111111111111111111111111'')"
    by (simp add: demo_J_def length_full_body) (simp add: full_body_def short_body_def)
  have f: "push_Ref (push_event ''0000000000000000000000000000000000000000''
                        ''1111111111111111111111111111111111111111'')
             = ''refs/heads/'' @ wh_branch demo_handler"
    by (simp add: push_event_def demo_handler_def)
  show ?thesis
    using ServeHTTP_push
      [where H = demo_H and h = demo_handler and J = demo_J and m = idle_manager,
       OF m b s e j f]
    by (simp add: push_event_def Trigger_def idle_manager_def)
qed

text \<open>
  Claim C3 is not met by the code: for a signed push to the tracked branch whose
  \<open>before\<close> or \<open>after\<close> field has fewer than eight bytes, the handler panics on the
  slice it takes for its log line, before it reaches \<open>Trigger\<close>; it emits no trigger
  and does not answer 200.
\<close>

theorem short_commit_id_panics:
  assumes "req_Method r = ''POST''" and "ReadAll_LimitReader r = Some body"
    and "req_Signature r = ''sha256='' @ H (wh_secret h) body"
    and "req_Event r = ''push''" and "J body = Some event"
    and "push_Ref event = ''refs/heads/'' @ wh_branch h"
    and "length (push_Before event) < 8 \<or> length (push_After event) < 8"
  shows "out_reply (ServeHTTP H J h m r) = Panic ''slice bounds out of range''
         \<and> EmitTrigger \<notin> set (out_effects (ServeHTTP H J h m r))
         \<and> out_manager (ServeHTTP H J h m r) = m"
  using ServeHTTP_push[where H = H and h = h and J = J, OF assms(1-6), of m] assms(7) by simp

lemma demo_J_short: "demo_J short_body = Some (push_event [] [])"
  by (simp add: demo_J_def)

theorem short_commit_id_panics_witness:
  "out_reply (ServeHTTP demo_H demo_J demo_handler idle_manager short_push)
     = Panic ''slice bounds out of range''
   \<and> EmitTrigger \<notin> set (out_effects (ServeHTTP demo_H demo_J demo_handler idle_manager short_push))
   \<and> out_manager (ServeHTTP demo_H demo_J demo_handler idle_manager short_push) = idle_manager
   \<and> mgr_triggerChan (out_manager (ServeHTTP demo_H demo_J demo_handler idle_manager short_push)) = 0"
proof -
  have m: "req_Method short_push = ''POST''" and e: "req_Event short_push = ''push''"
    by (simp_all add: short_push_def push_request_def)
  have s: "req_Signature short_push = ''sha256='' @ demo_H (wh_secret demo_handler) short_body"
    by (simp add: short_push_def push_request_def demo_H_short demo_handler_def)
  have f: "push_Ref (push_event [] []) = ''refs/heads/'' @ wh_branch demo_handler"
    by (simp add: push_event_def demo_handler_def)
  have l: "length (push_Before (push_event [] [])) < 8 \<or> length (push_After (push_event [] [])) < 8"
    by (simp add: push_event_def)
  show ?thesis
    using short_commit_id_panics
      [where H = demo_H and h = demo_handler and J = demo_J and m = idle_manager,
       OF m short_push_read s e demo_J_short f l]
    by (simp add: idle_manager_def)
qed

lemma length_short_body: "length short_body = 25"
  by (simp add: short_body_def)

lemma length_padded_body: "length (padded_body n) = 128 + n"
  by (simp add: padded_body_def length_full_body)

lemma padded_body_not_short: "padded_body n \<noteq> short_body"
proof
  assume "padded_body n = short_body"
  then have "length (padded_body n) = length short_body" by simp
  then show False by (simp add: length_padded_body length_short_body)
qed

lemma padded_body_eq: "padded_body a = padded_body b \<longleftrightarrow> a = b"
  by (auto simp: padded_body_def)

lemma padded_body_full: "padded_body n = full_body \<longleftrightarrow> n = 0"
  by (simp add: padded_body_def)

lemma take_padded_body: "128 \<le> k \<Longrightarrow> take k (padded_body n) = padded_body (min (k - 128) n)"
  by (simp add: padded_body_def length_full_body)

lemma demo_J_padded:
  "demo_J (padded_body n)
     = Some (push_event ''0000000000000000000000000000000000000000''
                        ''1111111111111111111111111111111111111111'')"
  by (simp add: demo_J_def padded_body_not_short) (simp add: padded_body_def length_full_body list_all_iff)

lemma oversize_push_read: "ReadAll_LimitReader oversize_push = Some (padded_body 10485632)"
  by (simp add: ReadAll_LimitReader_def oversize_push_def push_request_def length_padded_body
      take_padded_body maxBody_def)

lemma unsigned_oversize_push_read:
  "ReadAll_LimitReader unsigned_oversize_push = Some (padded_body 10485632)"
  by (simp add: ReadAll_LimitReader_def unsigned_oversize_push_def push_request_def length_padded_body
      take_padded_body maxBody_def)

lemma demo_H_prefix:
  "demo_H ''s3cret'' (padded_body 10485632)
     = ''9e47a61cf87909db2f90bfda07a89164b2ff33762fb3ae17759fe7c94b0ac863''"
  by (simp add: demo_H_def padded_body_not_short padded_body_full)

lemma demo_H_whole:
  "demo_H ''s3cret'' (padded_body 10485633)
     = ''ceee31e46456e06cbfc3cded6d7b5dca130549683e8958f09eea04116d9599b2''"
  by (simp add: demo_H_def padded_body_not_short padded_body_full padded_body_eq)

lemma oversize_push_served:
  "ServeHTTP demo_H demo_J demo_handler idle_manager oversize_push
     = \<lparr>out_reply = Reply 200 accepted_body,
        out_effects = [ReadBody, CheckSignature, ParseBody, EmitTrigger],
        out_manager = idle_manager\<lparr>mgr_triggerChan := 1\<rparr>\<rparr>"
proof -
  have m: "req_Method oversize_push = ''POST''" and e: "req_Event oversize_push = ''push''"
    by (simp_all add: oversize_push_def push_request_def)
  have s: "req_Signature oversize_push
             = ''sha256='' @ demo_H (wh_secret demo_handler) (padded_body 10485632)"
    by (simp add: oversize_push_def push_request_def demo_H_prefix demo_secret)
  have f: "push_Ref (push_event ''0000000000000000000000000000000000000000''
                        ''1111111111111111111111111111111111111111'') = ''refs/heads/'' @ wh_branch demo_handler"
    by (simp add: push_event_def demo_handler_def)
  show ?thesis
    using ServeHTTP_push [where H = demo_H and h = demo_handler and J = demo_J and m = idle_manager,
       OF m oversize_push_read s e demo_J_padded f]
    by (simp add: push_event_def Trigger_def idle_manager_def)
qed

text \<open>
  Claim C5 does not hold of a body beyond 10 MiB, nor of a body whose read fails: the
  push of 10 MiB and one byte carries a signature that differs from the HMAC of its
  raw body, yet it is decoded, answered 200 and emits a trigger, since the signature
  is the HMAC of the first 10 MiB; and the push without a signature whose body
  stream breaks off is answered 400 before the signature is looked at.
\<close>

theorem bad_signature_counterexample:
  "req_Method oversize_push = ''POST''
   \<and> req_Signature oversize_push
       \<noteq> ''sha256='' @ demo_H (wh_secret demo_handler) (req_Body oversize_push)
   \<and> out_reply (ServeHTTP demo_H demo_J demo_handler idle_manager oversize_push)
       = Reply 200 accepted_body
   \<and> ParseBody \<in> set (out_effects (ServeHTTP demo_H demo_J demo_handler idle_manager oversize_push))
   \<and> EmitTrigger \<in> set (out_effects (ServeHTTP demo_H demo_J demo_handler idle_manager oversize_push))
   \<and> req_Method interrupted_push = ''POST''
   \<and> req_Signature interrupted_push = []
   \<and> out_reply (ServeHTTP demo_H demo_J demo_handler idle_manager interrupted_push)
       = Reply 400 ''failed to read body''
   \<and> out_effects (ServeHTTP demo_H demo_J demo_handler idle_manager interrupted_push) = [ReadBody]"
proof -
  have a: "req_Method oversize_push = ''POST''"
    "req_Signature oversize_push
       \<noteq> ''sha256='' @ demo_H (wh_secret demo_handler) (req_Body oversize_push)"
    by (simp_all add: oversize_push_def push_request_def demo_H_whole demo_secret)
  have b: "req_Method interrupted_push = ''POST''" "req_Signature interrupted_push = []"
    by (simp_all add: interrupted_push_def push_request_def)
  have r: "ReadAll_LimitReader interrupted_push = None"
    by (simp add: ReadAll_LimitReader_def interrupted_push_def push_request_def
        length_short_body maxBody_def)
  have c: "ServeHTTP demo_H demo_J demo_handler idle_manager interrupted_push
             = \<lparr>out_reply = Reply 400 ''failed to read body'', out_effects = [ReadBody],
                out_manager = idle_manager\<rparr>"
    using b(1) r by (simp add: ServeHTTP_def)
  show ?thesis using a b by (simp add: oversize_push_served c)
qed

text \<open>
  Claim C4 does not hold: a push of 10 MiB and one byte, whose signature is the HMAC
  of its first 10 MiB and not of the whole body, is answered 200 and emits a trigger;
  the same push without a signature is answered 401, not 400 or 413.
\<close>

theorem oversize_body_counterexample:
  "length (req_Body oversize_push) = 10485761
   \<and> maxBody < length (req_Body oversize_push)
   \<and> req_Signature oversize_push
       \<noteq> ''sha256='' @ demo_H (wh_secret demo_handler) (req_Body oversize_push)
   \<and> out_reply (ServeHTTP demo_H demo_J demo_handler idle_manager oversize_push)
       = Reply 200 accepted_body
   \<and> EmitTrigger \<in> set (out_effects (ServeHTTP demo_H demo_J demo_handler idle_manager oversize_push))
   \<and> mgr_triggerChan (out_manager (ServeHTTP demo_H demo_J demo_handler idle_manager oversize_push)) = 1
   \<and> maxBody < length (req_Body unsigned_oversize_push)
   \<and> out_reply (ServeHTTP demo_H demo_J demo_handler idle_manager unsigned_oversize_push)
       = Reply 401 ''invalid signature''"
proof -
  have a: "length (req_Body oversize_push) = 10485761" "maxBody < length (req_Body oversize_push)"
    "maxBody < length (req_Body unsigned_oversize_push)"
    by (simp_all add: oversize_push_def unsigned_oversize_push_def push_request_def length_padded_body maxBody_def)
  have b: "req_Signature oversize_push
       \<noteq> ''sha256='' @ demo_H (wh_secret demo_handler) (req_Body oversize_push)"
    by (simp add: oversize_push_def push_request_def demo_H_whole demo_secret)
  have c: "out_reply (ServeHTTP demo_H demo_J demo_handler idle_manager unsigned_oversize_push)
       = Reply 401 ''invalid signature''"
    using ServeHTTP_rejects [where H = demo_H and h = demo_handler and J = demo_J and m = idle_manager
        and r = unsigned_oversize_push, OF _ unsigned_oversize_push_read]
    by (simp add: unsigned_oversize_push_def push_request_def)
  show ?thesis using a b c by (simp add: oversize_push_served)
qed

text \<open>
  Claim C4, amended. For every POST whose body exceeds 10 MiB the handler reads the
  first 10 MiB and answers as it answers the request that carries that prefix as its
  body. It never answers 413, and it answers 400 only when the prefix is signed, the
  event is a push and the prefix does not decode; when the signature header is not
  \<open>sha256=\<close> followed by the HMAC of the prefix, it answers 401 and emits no trigger.
\<close>

theorem oversize_body_truncated:
  assumes "req_Method r = ''POST''" and "maxBody < length (req_Body r)"
  shows "ServeHTTP H J h m r
           = ServeHTTP H J h m (r\<lparr>req_Body := take maxBody (req_Body r), req_BodyFails := False\<rparr>)
         \<and> (\<forall>msg. out_reply (ServeHTTP H J h m r) \<noteq> Reply 413 msg)
         \<and> (\<forall>msg. out_reply (ServeHTTP H J h m r) = Reply 400 msg \<longrightarrow>
                msg = ''invalid payload''
                \<and> req_Signature r = ''sha256='' @ H (wh_secret h) (take maxBody (req_Body r))
                \<and> req_Event r = ''push'' \<and> J (take maxBody (req_Body r)) = None)
         \<and> (req_Signature r \<noteq> ''sha256='' @ H (wh_secret h) (take maxBody (req_Body r)) \<longrightarrow>
              out_reply (ServeHTTP H J h m r) = Reply 401 ''invalid signature''
              \<and> EmitTrigger \<notin> set (out_effects (ServeHTTP H J h m r))
              \<and> out_manager (ServeHTTP H J h m r) = m)"
proof -
  let ?r = "r\<lparr>req_Body := take maxBody (req_Body r), req_BodyFails := False\<rparr>"
  have rd: "ReadAll_LimitReader r = Some (take maxBody (req_Body r))"
    using assms(2) by (rule ReadAll_oversize)
  have rd': "ReadAll_LimitReader ?r = Some (take maxBody (req_Body r))"
    using assms(2) by (simp add: ReadAll_LimitReader_def)
  have 1: "ServeHTTP H J h m r = ServeHTTP H J h m ?r"
    by (simp add: ServeHTTP_def rd rd')
  have 2: "out_reply (ServeHTTP H J h m r) \<noteq> Reply 413 msg" for msg
    by (simp add: ServeHTTP_def rd assms(1) split: option.splits)
  have 3: "out_reply (ServeHTTP H J h m r) = Reply 400 msg \<longrightarrow>
                msg = ''invalid payload''
                \<and> req_Signature r = ''sha256='' @ H (wh_secret h) (take maxBody (req_Body r))
                \<and> req_Event r = ''push'' \<and> J (take maxBody (req_Body r)) = None" for msg
    using validateSignature_iff[of H h "req_Signature r" "take maxBody (req_Body r)"]
    by (simp add: ServeHTTP_def rd assms(1) split: option.splits if_splits)
  have 4: "req_Signature r \<noteq> ''sha256='' @ H (wh_secret h) (take maxBody (req_Body r)) \<longrightarrow>
              out_reply (ServeHTTP H J h m r) = Reply 401 ''invalid signature''
              \<and> EmitTrigger \<notin> set (out_effects (ServeHTTP H J h m r))
              \<and> out_manager (ServeHTTP H J h m r) = m"
    using ServeHTTP_rejects[where H = H and h = h and J = J and m = m, OF assms(1) rd] by simp
  from 1 2 3 4 show ?thesis by blast
qed

theorem oversize_body_truncated_witness:
  "req_Method unsigned_oversize_push = ''POST''
   \<and> maxBody < length (req_Body unsigned_oversize_push)
   \<and> take maxBody (req_Body unsigned_oversize_push) = padded_body 10485632
   \<and> out_reply (ServeHTTP demo_H demo_J demo_handler idle_manager unsigned_oversize_push)
       = Reply 401 ''invalid signature''
   \<and> out_manager (ServeHTTP demo_H demo_J demo_handler idle_manager unsigned_oversize_push)
       = idle_manager
   \<and> ServeHTTP demo_H demo_J demo_handler idle_manager oversize_push
       = ServeHTTP demo_H demo_J demo_handler idle_manager
           (oversize_push\<lparr>req_Body := padded_body 10485632, req_BodyFails := False\<rparr>)"
proof -
  have m: "req_Method unsigned_oversize_push = ''POST''" "req_Method oversize_push = ''POST''"
    by (simp_all add: unsigned_oversize_push_def oversize_push_def push_request_def)
  have l: "maxBody < length (req_Body unsigned_oversize_push)" "maxBody < length (req_Body oversize_push)"
    by (simp_all add: unsigned_oversize_push_def oversize_push_def push_request_def length_padded_body maxBody_def)
  have t: "take maxBody (req_Body unsigned_oversize_push) = padded_body 10485632"
    "take maxBody (req_Body oversize_push) = padded_body 10485632"
    by (simp_all add: unsigned_oversize_push_def oversize_push_def push_request_def take_padded_body maxBody_def)
  have s: "req_Signature unsigned_oversize_push
       \<noteq> ''sha256='' @ demo_H (wh_secret demo_handler) (take maxBody (req_Body unsigned_oversize_push))"
    by (simp add: unsigned_oversize_push_def push_request_def)
  note u = oversize_body_truncated
      [where H = demo_H and h = demo_handler and J = demo_J and m = idle_manager, OF m(1) l(1)]
  note v = oversize_body_truncated
      [where H = demo_H and h = demo_handler and J = demo_J and m = idle_manager, OF m(2) l(2)]
  from u s have "out_reply (ServeHTTP demo_H demo_J demo_handler idle_manager unsigned_oversize_push)
       = Reply 401 ''invalid signature''"
    "out_manager (ServeHTTP demo_H demo_J demo_handler idle_manager unsigned_oversize_push)
       = idle_manager" by blast+
  moreover from v t(2) have "ServeHTTP demo_H demo_J demo_handler idle_manager oversize_push
       = ServeHTTP demo_H demo_J demo_handler idle_manager
           (oversize_push\<lparr>req_Body := padded_body 10485632, req_BodyFails := False\<rparr>)"
    by simp
  ultimately show ?thesis using m l t by blast
qed

section \<open>Cache statistics\<close>




end
